(* ===== verification/Admin_Prelude.thy ===== *)
theory Admin_Prelude
  imports Main "HOL-Library.Word" "HOL-Library.Sublist" "HOL-Library.Multiset"
begin

section \<open>Shared vocabulary of the Admin front-end model\<close>

text \<open>
  JavaScript strings are sequences of UTF-16 code units, so the model keeps them as lists of
  16-bit words: \<open>length\<close>, comparison and slicing then count what the language counts, and text
  outside ASCII has the code units it has in the source.  \<open>lit\<close> turns an ASCII literal of the
  source into such a list; literals in Chinese are written as their code units.

  The theory also holds the parts of \<open>String.prototype\<close> the components use (\<open>trim\<close>,
  \<open>startsWith\<close>, \<open>includes\<close>), the promise outcome type, and the generic facts on lists the
  component theories share.
\<close>

type_synonym code_unit = "16 word"
type_synonym jstr = "code_unit list"

named_theorems inv_intros \<open>preservation of the components' invariants, one rule per operation\<close>

definition lit :: "string \<Rightarrow> jstr" where
  "lit s = map (\<lambda>c. of_nat (of_char c)) s"

subsection \<open>White space, \<open>trim\<close>, \<open>startsWith\<close>, \<open>includes\<close>\<close>

text \<open>The WhiteSpace and LineTerminator productions of the language, which \<open>trim\<close> strips.\<close>

definition is_js_space :: "code_unit \<Rightarrow> bool" where
  "is_js_space c \<longleftrightarrow>
     c \<in> {9, 10, 11, 12, 13, 32, 0xA0, 0x1680, 0x2028, 0x2029, 0x202F, 0x205F, 0x3000, 0xFEFF}
     \<or> (0x2000 \<le> c \<and> c \<le> 0x200A)"

definition js_trim :: "jstr \<Rightarrow> jstr" where
  "js_trim s = rev (dropWhile is_js_space (rev (dropWhile is_js_space s)))"

definition starts_with :: "jstr \<Rightarrow> jstr \<Rightarrow> bool" where
  "starts_with s p \<longleftrightarrow> take (length p) s = p"

fun js_includes :: "jstr \<Rightarrow> jstr \<Rightarrow> bool" where
  "js_includes [] needle = (needle = [])"
| "js_includes (c # s) needle = (starts_with (c # s) needle \<or> js_includes s needle)"

text \<open>\<open>set(k, v)\<close> of a header list and of a parameter list: overwrite the first binding of the
  name and drop its others, or append a binding at the end.\<close>

fun assoc_set :: "'k \<Rightarrow> 'v \<Rightarrow> ('k \<times> 'v) list \<Rightarrow> ('k \<times> 'v) list" where
  "assoc_set k v [] = [(k, v)]"
| "assoc_set k v ((k', v') # ps) =
     (if k' = k then (k, v) # filter (\<lambda>p. fst p \<noteq> k) ps else (k', v') # assoc_set k v ps)"

subsection \<open>Facts on the string operations\<close>

lemma code_unit_of_char: "unat (of_nat (of_char c) :: code_unit) = of_char c"
proof -
  have "(of_char c :: nat) < 65536"
    using nat_of_char_less_256 [of c] by linarith
  then show ?thesis
    by (simp add: unat_of_nat)
qed

lemma lit_inject [simp]: "lit s = lit t \<longleftrightarrow> s = t"
proof -
  have "inj (\<lambda>c. of_nat (of_char c) :: code_unit)"
    by (rule injI) (metis code_unit_of_char of_char_eq_iff)
  then show ?thesis
    by (simp add: lit_def inj_map_eq_map)
qed

lemma lit_Nil [simp]: "lit [] = []"
  by (simp add: lit_def)

lemma lit_eq_Nil [simp]: "lit s = [] \<longleftrightarrow> s = []"
  by (simp add: lit_def)

lemma length_lit [simp]: "length (lit s) = length s"
  by (simp add: lit_def)

lemma starts_with_iff_prefix: "starts_with s p \<longleftrightarrow> prefix p s"
  unfolding starts_with_def prefix_def
  by (metis append_eq_conv_conj append_take_drop_id)

lemma js_includes_iff_sublist: "js_includes s needle \<longleftrightarrow> sublist needle s"
proof (induction s)
  case Nil
  then show ?case by simp
next
  case (Cons c s)
  then show ?case
    by (simp add: sublist_Cons_right starts_with_iff_prefix)
qed

lemma js_includes_Nil [simp]: "js_includes s []"
  by (simp add: js_includes_iff_sublist)

lemma js_trim_Nil [simp]: "js_trim [] = []"
  by (simp add: js_trim_def)

lemma js_trim_empty_iff: "js_trim s = [] \<longleftrightarrow> (\<forall>c \<in> set s. is_js_space c)"
proof
  assume "js_trim s = []"
  then have "\<forall>c \<in> set (dropWhile is_js_space s). is_js_space c"
    by (simp add: js_trim_def dropWhile_eq_Nil_conv)
  then have "dropWhile is_js_space s = []"
    by (metis hd_dropWhile hd_in_set)
  then show "\<forall>c \<in> set s. is_js_space c"
    by (simp add: dropWhile_eq_Nil_conv)
next
  assume "\<forall>c \<in> set s. is_js_space c"
  then have "dropWhile is_js_space s = []"
    by (simp only: dropWhile_eq_Nil_conv)
  then show "js_trim s = []"
    by (simp only: js_trim_def) simp
qed

lemma last_js_trim: "js_trim s \<noteq> [] \<Longrightarrow> \<not> is_js_space (last (js_trim s))"
  unfolding js_trim_def by (metis hd_dropWhile last_rev rev_is_Nil_conv)

lemma js_trim_hd: "js_trim s \<noteq> [] \<Longrightarrow> \<not> is_js_space (hd (js_trim s))"
proof -
  assume ne: "js_trim s \<noteq> []"
  define d where "d = dropWhile is_js_space s"
  have "suffix (dropWhile is_js_space (rev d)) (rev d)"
    by (rule suffix_dropWhile)
  then have "prefix (js_trim s) d"
    by (simp add: js_trim_def d_def suffix_to_prefix)
  then have "hd (js_trim s) = hd d" and "d \<noteq> []"
    using ne by (auto simp: prefix_def)
  then show "\<not> is_js_space (hd (js_trim s))"
    by (simp add: d_def hd_dropWhile)
qed

lemma js_trim_fixed:
  assumes "s \<noteq> []" "\<not> is_js_space (hd s)" "\<not> is_js_space (last s)"
  shows "js_trim s = s"
proof -
  have "dropWhile is_js_space s = s"
    using assms(1,2) by (cases s) auto
  moreover have "dropWhile is_js_space (rev s) = rev s"
    using assms(1,3) by (cases s rule: rev_cases) auto
  ultimately show ?thesis
    by (simp add: js_trim_def)
qed

lemma js_trim_idem [simp]: "js_trim (js_trim s) = js_trim s"
  by (cases "js_trim s = []") (simp_all add: js_trim_fixed js_trim_hd last_js_trim)

subsection \<open>Generic list facts\<close>

lemma map_of_filter_fst: "map_of (filter (\<lambda>p. fst p \<noteq> k) ps) = (map_of ps)(k := None)"
  by (induction ps) (auto simp: fun_eq_iff)

lemma map_of_assoc_set [simp]: "map_of (assoc_set k v ps) = (map_of ps)(k \<mapsto> v)"
  by (induction ps) (auto simp: map_of_filter_fst fun_eq_iff)

lemma assoc_set_absent: "k \<notin> fst ` set ps \<Longrightarrow> assoc_set k v ps = ps @ [(k, v)]"
  by (induction ps) auto

lemma map_replace_id:
  assumes "\<And>x. x \<in> set xs \<Longrightarrow> k x = i \<Longrightarrow> k y = i"
  shows "map k (map (\<lambda>x. if k x = i then y else x) xs) = map k xs"
  using assms by (induction xs) auto

lemma mset_remove_key:
  assumes "distinct (map fst ps)" "map_of ps i = Some v"
  shows "mset ps = add_mset (i, v) (mset (filter (\<lambda>p. fst p \<noteq> i) ps))"
  using assms
proof (induction ps)
  case (Cons p ps)
  have "i \<notin> fst ` set ps \<Longrightarrow> filter (\<lambda>p. fst p \<noteq> i) ps = ps"
    by (auto simp: filter_id_conv)
  with Cons show ?case by (cases p) (auto simp flip: mset_filter)
qed simp

lemma distinct_subseq: "subseq xs ys \<Longrightarrow> distinct ys \<Longrightarrow> distinct xs"
  by (auto simp: subseq_conv_nths intro: distinct_nthsI)

subsection \<open>Systems with an invariant\<close>

text \<open>
  The contract every stateful component is shown to meet: a start state and a step relation that
  keep an invariant.  The invariant then holds in every state the component reaches.
\<close>

locale invariant_system =
  fixes start :: 's
    and step :: "'s \<Rightarrow> 's \<Rightarrow> bool"
    and invariant :: "'s \<Rightarrow> bool"
  assumes start_inv: "invariant start"
    and step_inv: "step s s' \<Longrightarrow> invariant s \<Longrightarrow> invariant s'"
begin

lemma steps_inv: "rtranclp step s s' \<Longrightarrow> invariant s \<Longrightarrow> invariant s'"
  by (induction rule: rtranclp_induct) (auto intro: step_inv)

lemma reach_inv: "rtranclp step start s \<Longrightarrow> invariant s"
  using start_inv steps_inv by blast

end

subsection \<open>Simulation\<close>

text \<open>
  A component whose operations match those of a specification event by event matches it after every
  sequence of events.
\<close>

locale simulation =
  fixes concrete :: "'e \<Rightarrow> 's \<Rightarrow> 's"
    and abstract :: "'e \<Rightarrow> 'a \<Rightarrow> 'a"
    and sim :: "'s \<Rightarrow> 'a \<Rightarrow> bool"
  assumes sim_step: "sim s a \<Longrightarrow> sim (concrete e s) (abstract e a)"
begin

lemma sim_run: "sim s a \<Longrightarrow> sim (fold concrete es s) (fold abstract es a)"
  by (induction es arbitrary: s a) (simp_all add: sim_step)

end

end
