(* ===== verification/Js_Value.thy ===== *)
theory Js_Value
  imports Admin_Prelude
begin

section \<open>JavaScript values, property access and \<open>JSON.stringify\<close>\<close>

text \<open>
  Values that cross the network boundary: what \<open>response.json()\<close> yields and what
  \<open>JSON.stringify\<close> is given.  Object members are an association list (first binding wins; the
  keys of a parsed object are distinct).  Numbers of the Admin API are integers and are kept as
  \<open>int\<close>.  The operators \<open>??\<close>, \<open>?.\<close>, truthiness and \<open>ToString\<close> are written out as the
  language defines them for these values; \<open>json_stringify\<close> is the serialisation algorithm of
  the language, lone surrogates escaped, with no indentation.
\<close>

datatype jval =
    JUndefined
  | JNull
  | JBool bool
  | JNum int
  | JStr jstr
  | JArr "jval list"
  | JObj "(jstr \<times> jval) list"

definition empty_object :: jval where
  "empty_object = JObj []"

fun nullish :: "jval \<Rightarrow> bool" where
  "nullish JUndefined = True"
| "nullish JNull = True"
| "nullish _ = False"

fun truthy :: "jval \<Rightarrow> bool" where
  "truthy JUndefined = False"
| "truthy JNull = False"
| "truthy (JBool b) = b"
| "truthy (JNum n) = (n \<noteq> 0)"
| "truthy (JStr s) = (s \<noteq> [])"
| "truthy (JArr _) = True"
| "truthy (JObj _) = True"

text \<open>Own property of a value that is neither null nor undefined; no property is found on the
  other kinds of value for the names the components read.\<close>

fun get_prop :: "jval \<Rightarrow> string \<Rightarrow> jval" where
  "get_prop (JObj ms) k = (case map_of ms (lit k) of None \<Rightarrow> JUndefined | Some v \<Rightarrow> v)"
| "get_prop _ k = JUndefined"

text \<open>\<open>v.k\<close> raises a TypeError on null and undefined; \<open>v?.k\<close> is undefined there.\<close>

definition member :: "jval \<Rightarrow> string \<Rightarrow> jval option" where
  "member v k = (if nullish v then None else Some (get_prop v k))"

definition opt_member :: "jval \<Rightarrow> string \<Rightarrow> jval" where
  "opt_member v k = (if nullish v then JUndefined else get_prop v k)"

definition coalesce :: "jval \<Rightarrow> jval \<Rightarrow> jval" where
  "coalesce v w = (if nullish v then w else v)"

subsection \<open>\<open>ToString\<close>\<close>

fun digits_of :: "nat \<Rightarrow> jstr" where
  "digits_of n = (if n < 10 then [of_nat (48 + n)] else digits_of (n div 10) @ [of_nat (48 + n mod 10)])"

declare digits_of.simps [simp del]

definition int_text :: "int \<Rightarrow> jstr" where
  "int_text i = (if i < 0 then lit ''-'' @ digits_of (nat (- i)) else digits_of (nat i))"

fun join_with :: "jstr \<Rightarrow> jstr list \<Rightarrow> jstr" where
  "join_with sep [] = []"
| "join_with sep [x] = x"
| "join_with sep (x # y # xs) = x @ sep @ join_with sep (y # xs)"

fun to_text :: "jval \<Rightarrow> jstr" where
  "to_text JUndefined = lit ''undefined''"
| "to_text JNull = lit ''null''"
| "to_text (JBool b) = (if b then lit ''true'' else lit ''false'')"
| "to_text (JNum n) = int_text n"
| "to_text (JStr s) = s"
| "to_text (JArr vs) = join_with (lit '','') (map (\<lambda>v. if nullish v then [] else to_text v) vs)"
| "to_text (JObj _) = lit ''[object Object]''"

text \<open>The message of the TypeError that reading a member of null or undefined raises.\<close>

definition type_error_text :: "jval \<Rightarrow> string \<Rightarrow> jstr" where
  "type_error_text v k =
     lit ''Cannot read properties of '' @ to_text v @ lit '' (reading '' @ [39] @ lit k @ [39, 41]"

subsection \<open>\<open>JSON.stringify\<close>\<close>

definition is_high :: "code_unit \<Rightarrow> bool" where
  "is_high c \<longleftrightarrow> 0xD800 \<le> c \<and> c \<le> 0xDBFF"

definition is_low :: "code_unit \<Rightarrow> bool" where
  "is_low c \<longleftrightarrow> 0xDC00 \<le> c \<and> c \<le> 0xDFFF"

definition hex_digit :: "nat \<Rightarrow> code_unit" where
  "hex_digit n = (if n < 10 then of_nat (48 + n) else of_nat (87 + n))"

definition unicode_escape :: "code_unit \<Rightarrow> jstr" where
  "unicode_escape c =
     (let n = unat c
      in [92, 117, hex_digit (n div 4096), hex_digit (n div 256 mod 16),
          hex_digit (n div 16 mod 16), hex_digit (n mod 16)])"

definition quote_unit :: "code_unit \<Rightarrow> jstr" where
  "quote_unit c =
     (if c = 8 then [92, 98] else if c = 9 then [92, 116] else if c = 10 then [92, 110]
      else if c = 12 then [92, 102] else if c = 13 then [92, 114]
      else if c = 34 then [92, 34] else if c = 92 then [92, 92]
      else if c < 32 \<or> is_high c \<or> is_low c then unicode_escape c
      else [c])"

fun quote_units :: "jstr \<Rightarrow> jstr" where
  "quote_units [] = []"
| "quote_units [c] = quote_unit c"
| "quote_units (c # d # s) =
     (if is_high c \<and> is_low d then c # d # quote_units s
      else quote_unit c @ quote_units (d # s))"

definition quote :: "jstr \<Rightarrow> jstr" where
  "quote s = [34] @ quote_units s @ [34]"

text \<open>Members whose value is undefined are left out; an undefined array element prints as null.
  The result for a bare undefined value is never used by the components.\<close>

fun json_stringify :: "jval \<Rightarrow> jstr" where
  "json_stringify JUndefined = lit ''null''"
| "json_stringify JNull = lit ''null''"
| "json_stringify (JBool b) = (if b then lit ''true'' else lit ''false'')"
| "json_stringify (JNum n) = int_text n"
| "json_stringify (JStr s) = quote s"
| "json_stringify (JArr vs) = lit ''['' @ join_with (lit '','') (map json_stringify vs) @ lit '']''"
| "json_stringify (JObj ms) =
     lit ''{'' @
     join_with (lit '','')
       (map (\<lambda>(k, v). quote k @ lit '':'' @ json_stringify v)
            (filter (\<lambda>(k, v). v \<noteq> JUndefined) ms)) @
     lit ''}''"

lemma coalesce_simps [simp]:
  "coalesce JUndefined w = w" "coalesce JNull w = w" "coalesce (JStr s) w = JStr s"
  by (simp_all add: coalesce_def)

lemma opt_member_simps [simp]:
  "opt_member JUndefined k = JUndefined" "opt_member JNull k = JUndefined"
  "opt_member (JObj ms) k = get_prop (JObj ms) k"
  by (simp_all add: opt_member_def)

end
