(* ===== verification/Admin_Parts.thy ===== *)
theory Admin_Parts
  imports Js_Value
begin

section \<open>Shared page parts: \<open>components/admin\<close>, the context hooks and the entry point\<close>

text \<open>
  The small components every view is put together from: the page with its heading, the table, the
  state panels and the pagination, with their texts, roles and enabled buttons.  Class names and
  icons are left out.
\<close>

subsection \<open>Contexts and entry point\<close>

text \<open>A hook that is used outside its provider raises an error with this message.\<close>

definition require_context :: "string \<Rightarrow> 'a option \<Rightarrow> jstr + 'a" where
  "require_context message value = (case value of None \<Rightarrow> Inl (lit message) | Some v \<Rightarrow> Inr v)"

definition useAuth :: "'a option \<Rightarrow> jstr + 'a" where
  "useAuth value = require_context ''useAuth must be used inside AuthProvider'' value"

definition useApp :: "'a option \<Rightarrow> jstr + 'a" where
  "useApp value = require_context ''useApp must be used inside AppProvider'' value"

definition useToast :: "'a option \<Rightarrow> jstr + 'a" where
  "useToast value = require_context ''useToast must be used inside ToastProvider'' value"

definition useRecords :: "'a option \<Rightarrow> jstr + 'a" where
  "useRecords value = require_context ''useRecords must be used inside RecordsProvider'' value"

definition main_root :: "'e option \<Rightarrow> jstr + 'e" where
  "main_root root = require_context ''Admin root element is missing'' root"

subsection \<open>Page, table and states\<close>

definition admin_page_id :: "jstr \<Rightarrow> jstr" where
  "admin_page_id uid = lit ''admin-page-'' @ filter (\<lambda>c. c \<noteq> 58) uid"

record page_markup =
  labelled_by :: jstr
  heading_id :: jstr
  eyebrow :: jstr
  heading :: jstr
  page_summary :: jstr
  has_actions :: bool

definition AdminPage :: "jstr \<Rightarrow> jstr \<Rightarrow> jstr \<Rightarrow> bool \<Rightarrow> page_markup" where
  "AdminPage uid title summary actions =
     \<lparr>labelled_by = admin_page_id uid, heading_id = admin_page_id uid,
      eyebrow = [0x8FD0, 0x884C, 0x7BA1, 0x7406], heading = title, page_summary = summary, has_actions = actions\<rparr>"

definition DataTable :: "jstr \<Rightarrow> jstr list \<Rightarrow> jstr \<times> (nat \<times> jstr) list" where
  "DataTable label headings = (label, enumerate 0 headings)"

text \<open>A state panel: whether it is announced as an alert, its texts, and whether it has a retry
  button.\<close>

record state_panel =
  panel_alert :: bool
  panel_texts :: "jstr list"
  panel_retry :: bool

definition LoadingState :: "jstr \<Rightarrow> state_panel" where
  "LoadingState label = \<lparr>panel_alert = False, panel_texts = [label], panel_retry = False\<rparr>"

definition ErrorState :: "jstr \<Rightarrow> state_panel" where
  "ErrorState message =
     \<lparr>panel_alert = True,
      panel_texts = [[0x6570, 0x636E, 0x52A0, 0x8F7D, 0x5931, 0x8D25], message],
      panel_retry = True\<rparr>"

definition ForbiddenState :: "jstr \<Rightarrow> state_panel" where
  "ForbiddenState message =
     \<lparr>panel_alert = True, panel_texts = [[0x65E0, 0x6743, 0x8BBF, 0x95EE], message], panel_retry = False\<rparr>"

definition EmptyState :: "jstr \<Rightarrow> jstr \<Rightarrow> state_panel" where
  "EmptyState title message = \<lparr>panel_alert = False, panel_texts = [title, message], panel_retry = False\<rparr>"

record pagination =
  previous_enabled :: bool
  next_enabled :: bool

definition Pagination :: "bool \<Rightarrow> bool \<Rightarrow> bool \<Rightarrow> pagination option" where
  "Pagination canPrevious canNext busy =
     (if \<not> canPrevious \<and> \<not> canNext then None
      else Some \<lparr>previous_enabled = (canPrevious \<and> \<not> busy), next_enabled = (canNext \<and> \<not> busy)\<rparr>)"

end
