(* ===== verification/Uri_Text.thy ===== *)
theory Uri_Text
  imports Js_Value
begin

section \<open>UTF-8, \<open>encodeURIComponent\<close> and \<open>URLSearchParams\<close>\<close>

text \<open>
  The text codecs of the web platform that the components call: \<open>App.tsx\<close> puts the location a
  visitor asked for into the login URL with \<open>encodeURIComponent\<close>, \<open>LoginView.tsx\<close> reads it
  back with \<open>new URLSearchParams(...).get('next')\<close>, and the operations views build their query
  string with \<open>URLSearchParams\<close>.  Bytes and code points are natural numbers; strings are lists
  of code units.  The UTF-8 decoder is the decoder of the Encoding Standard with replacement of
  malformed input, the parser and the serialiser are those of
  \<open>application/x-www-form-urlencoded\<close>.
\<close>

subsection \<open>Code points and UTF-8\<close>

definition pair_point :: "code_unit \<Rightarrow> code_unit \<Rightarrow> nat" where
  "pair_point c d = 0x10000 + (unat c - 0xD800) * 0x400 + (unat d - 0xDC00)"

text \<open>The code points of a string, or \<open>None\<close> when it has a lone surrogate (URIError).\<close>

fun code_points :: "jstr \<Rightarrow> nat list option" where
  "code_points [] = Some []"
| "code_points [c] = (if is_high c \<or> is_low c then None else Some [unat c])"
| "code_points (c # d # s) =
     (if is_high c then
        (if is_low d then map_option ((#) (pair_point c d)) (code_points s) else None)
      else if is_low c then None
      else map_option ((#) (unat c)) (code_points (d # s)))"

text \<open>Conversion to scalar values: a lone surrogate becomes U+FFFD.\<close>

fun scalar_values :: "jstr \<Rightarrow> nat list" where
  "scalar_values [] = []"
| "scalar_values [c] = [if is_high c \<or> is_low c then 0xFFFD else unat c]"
| "scalar_values (c # d # s) =
     (if is_high c \<and> is_low d then pair_point c d # scalar_values s
      else (if is_high c \<or> is_low c then 0xFFFD else unat c) # scalar_values (d # s))"

definition utf8 :: "nat \<Rightarrow> nat list" where
  "utf8 n =
     (if n < 0x80 then [n]
      else if n < 0x800 then [0xC0 + n div 0x40, 0x80 + n mod 0x40]
      else if n < 0x10000 then [0xE0 + n div 0x1000, 0x80 + n div 0x40 mod 0x40, 0x80 + n mod 0x40]
      else [0xF0 + n div 0x40000, 0x80 + n div 0x1000 mod 0x40, 0x80 + n div 0x40 mod 0x40,
            0x80 + n mod 0x40])"

definition utf16 :: "nat \<Rightarrow> jstr" where
  "utf16 n =
     (if n < 0x10000 then [of_nat n]
      else [of_nat (0xD800 + (n - 0x10000) div 0x400), of_nat (0xDC00 + (n - 0x10000) mod 0x400)])"

fun utf8_decode :: "nat list \<Rightarrow> nat list"
and utf8_more :: "nat \<Rightarrow> nat \<Rightarrow> nat \<Rightarrow> nat \<Rightarrow> nat list \<Rightarrow> nat list" where
  "utf8_decode [] = []"
| "utf8_decode (b # bs) =
     (if b < 0x80 then b # utf8_decode bs
      else if 0xC2 \<le> b \<and> b \<le> 0xDF then utf8_more 0 0x80 0xBF (b - 0xC0) bs
      else if 0xE0 \<le> b \<and> b \<le> 0xEF then
        utf8_more 1 (if b = 0xE0 then 0xA0 else 0x80) (if b = 0xED then 0x9F else 0xBF) (b - 0xE0) bs
      else if 0xF0 \<le> b \<and> b \<le> 0xF4 then
        utf8_more 2 (if b = 0xF0 then 0x90 else 0x80) (if b = 0xF4 then 0x8F else 0xBF) (b - 0xF0) bs
      else 0xFFFD # utf8_decode bs)"
| "utf8_more k lo hi cp [] = [0xFFFD]"
| "utf8_more k lo hi cp (b # bs) =
     (if lo \<le> b \<and> b \<le> hi then
        (if k = 0 then (cp * 0x40 + (b - 0x80)) # utf8_decode bs
         else utf8_more (k - 1) 0x80 0xBF (cp * 0x40 + (b - 0x80)) bs)
      else 0xFFFD # utf8_decode (b # bs))"

subsection \<open>Percent encoding\<close>

definition upper_hex :: "nat \<Rightarrow> nat" where
  "upper_hex n = (if n < 10 then 48 + n else 55 + n)"

definition hex_value :: "nat \<Rightarrow> nat option" where
  "hex_value b =
     (if 48 \<le> b \<and> b \<le> 57 then Some (b - 48)
      else if 65 \<le> b \<and> b \<le> 70 then Some (b - 55)
      else if 97 \<le> b \<and> b \<le> 102 then Some (b - 87)
      else None)"

definition pct :: "nat \<Rightarrow> nat list" where
  "pct b = [37, upper_hex (b div 16), upper_hex (b mod 16)]"

fun percent_decode :: "nat list \<Rightarrow> nat list" where
  "percent_decode (b # h # l # bs) =
     (if b = 37 then
        (case (hex_value h, hex_value l) of
           (Some x, Some y) \<Rightarrow> (16 * x + y) # percent_decode bs
         | _ \<Rightarrow> b # percent_decode (h # l # bs))
      else b # percent_decode (h # l # bs))"
| "percent_decode bs = bs"

definition alnum :: "nat \<Rightarrow> bool" where
  "alnum n \<longleftrightarrow> (48 \<le> n \<and> n \<le> 57) \<or> (65 \<le> n \<and> n \<le> 90) \<or> (97 \<le> n \<and> n \<le> 122)"

text \<open>The characters \<open>encodeURIComponent\<close> leaves alone: letters, digits and the marks
  \<open>- _ . ! ~ *\<close>, quote and parentheses.\<close>

definition uri_unescaped :: "nat \<Rightarrow> bool" where
  "uri_unescaped n \<longleftrightarrow> alnum n \<or> n \<in> {45, 95, 46, 33, 126, 42, 39, 40, 41}"

definition encode_point :: "nat \<Rightarrow> nat list" where
  "encode_point n = (if uri_unescaped n then [n] else concat (map pct (utf8 n)))"

definition encodeURIComponent :: "jstr \<Rightarrow> jstr option" where
  "encodeURIComponent s = map_option (\<lambda>ps. map of_nat (concat (map encode_point ps))) (code_points s)"

subsection \<open>\<open>URLSearchParams\<close>\<close>

fun split_on :: "nat \<Rightarrow> nat list \<Rightarrow> nat list list" where
  "split_on x [] = [[]]"
| "split_on x (b # bs) =
     (if b = x then [] # split_on x bs
      else (case split_on x bs of [] \<Rightarrow> [[b]] | p # ps \<Rightarrow> (b # p) # ps))"

definition plus_to_space :: "nat list \<Rightarrow> nat list" where
  "plus_to_space = map (\<lambda>b. if b = 43 then 32 else b)"

definition form_decode :: "nat list \<Rightarrow> jstr" where
  "form_decode bs = concat (map utf16 (utf8_decode (percent_decode (plus_to_space bs))))"

definition form_pair :: "nat list \<Rightarrow> jstr \<times> jstr" where
  "form_pair bs =
     (form_decode (takeWhile (\<lambda>b. b \<noteq> 61) bs), form_decode (drop 1 (dropWhile (\<lambda>b. b \<noteq> 61) bs)))"

definition form_parse :: "nat list \<Rightarrow> (jstr \<times> jstr) list" where
  "form_parse bs = map form_pair (filter (\<lambda>p. p \<noteq> []) (split_on 38 bs))"

text \<open>\<open>new URLSearchParams(text)\<close> drops one leading question mark.\<close>

definition search_params :: "jstr \<Rightarrow> (jstr \<times> jstr) list" where
  "search_params s =
     form_parse (concat (map utf8 (scalar_values (case s of [] \<Rightarrow> [] | c # t \<Rightarrow> if c = 63 then t else s))))"

definition params_get :: "(jstr \<times> jstr) list \<Rightarrow> jstr \<Rightarrow> jstr option" where
  "params_get ps k = map_of ps k"

definition form_unescaped :: "nat \<Rightarrow> bool" where
  "form_unescaped b \<longleftrightarrow> alnum b \<or> b \<in> {42, 45, 46, 95}"

definition form_byte :: "nat \<Rightarrow> nat list" where
  "form_byte b = (if b = 32 then [43] else if form_unescaped b then [b] else pct b)"

definition form_encode :: "jstr \<Rightarrow> nat list" where
  "form_encode s = concat (map form_byte (concat (map utf8 (scalar_values s))))"

fun form_serialize :: "(jstr \<times> jstr) list \<Rightarrow> nat list" where
  "form_serialize [] = []"
| "form_serialize [(k, v)] = form_encode k @ [61] @ form_encode v"
| "form_serialize ((k, v) # p # ps) = form_encode k @ [61] @ form_encode v @ [38] @ form_serialize (p # ps)"

definition params_text :: "(jstr \<times> jstr) list \<Rightarrow> jstr" where
  "params_text ps = map of_nat (form_serialize ps)"

subsection \<open>UTF-8 and UTF-16 round trips\<close>

definition scalar :: "nat \<Rightarrow> bool" where
  "scalar n \<longleftrightarrow> n < 0xD800 \<or> (0xE000 \<le> n \<and> n < 0x110000)"

text \<open>A string is well formed when every surrogate is part of a pair.\<close>

definition well_formed :: "jstr \<Rightarrow> bool" where
  "well_formed s \<longleftrightarrow> code_points s \<noteq> None"

lemma base64_two: "(n::nat) = n div 0x40 * 0x40 + n mod 0x40"
  by simp

lemma base64_three: "(n::nat) = (n div 0x1000 * 0x40 + n div 0x40 mod 0x40) * 0x40 + n mod 0x40"
proof -
  have "n div 0x1000 = n div 0x40 div 0x40"
    by (simp flip: div_mult2_eq)
  then have "n div 0x1000 * 0x40 + n div 0x40 mod 0x40 = n div 0x40"
    using base64_two [of "n div 0x40"] by simp
  then show ?thesis
    using base64_two [of n] by simp
qed

lemma base64_four:
  "(n::nat) = ((n div 0x40000 * 0x40 + n div 0x1000 mod 0x40) * 0x40 + n div 0x40 mod 0x40) * 0x40 + n mod 0x40"
proof -
  have "n div 0x40000 = n div 0x40 div 0x1000" "n div 0x1000 = n div 0x40 div 0x40"
    by (simp_all flip: div_mult2_eq)
  then have "(n div 0x40000 * 0x40 + n div 0x1000 mod 0x40) * 0x40 + n div 0x40 mod 0x40 = n div 0x40"
    using base64_three [of "n div 0x40"] by simp
  then show ?thesis
    using base64_two [of n] by simp
qed

lemma utf8_decode_three:
  assumes "scalar n" "0x800 \<le> n" "n < 0x10000"
  shows "utf8_decode (utf8 n @ bs) = n # utf8_decode bs"
proof -
  define x y z where "x = n div 0x1000" "y = n div 0x40 mod 0x40" "z = n mod 0x40"
  have n: "n = (x * 0x40 + y) * 0x40 + z"
    unfolding x_y_z_def by (rule base64_three)
  have "y < 0x40" "z < 0x40" "x \<le> 15"
    using assms by (auto simp: x_y_z_def)
  note b = this
  have "x = 0 \<Longrightarrow> 0x20 \<le> y" "x = 13 \<Longrightarrow> y < 0x20"
    using assms n \<open>y < 0x40\<close> \<open>z < 0x40\<close> by (auto simp: scalar_def)
  moreover have "utf8 n = [0xE0 + x, 0x80 + y, 0x80 + z]"
    using assms by (simp add: utf8_def x_y_z_def)
  ultimately show ?thesis using b n by auto
qed

lemma utf8_decode_four:
  assumes "0x10000 \<le> n" "n < 0x110000"
  shows "utf8_decode (utf8 n @ bs) = n # utf8_decode bs"
proof -
  define w x y z where "w = n div 0x40000" "x = n div 0x1000 mod 0x40" "y = n div 0x40 mod 0x40" "z = n mod 0x40"
  have n: "n = ((w * 0x40 + x) * 0x40 + y) * 0x40 + z"
    unfolding w_x_y_z_def by (rule base64_four)
  have "x < 0x40" "y < 0x40" "z < 0x40" "w \<le> 4"
    using assms by (auto simp: w_x_y_z_def)
  note b = this
  have "w = 0 \<Longrightarrow> 0x10 \<le> x" "w = 4 \<Longrightarrow> x < 0x10"
    using assms n \<open>x < 0x40\<close> \<open>y < 0x40\<close> \<open>z < 0x40\<close> by auto
  moreover have "utf8 n = [0xF0 + w, 0x80 + x, 0x80 + y, 0x80 + z]"
    using assms by (simp add: utf8_def w_x_y_z_def)
  ultimately show ?thesis using b n by auto
qed

lemma utf8_decode_utf8 [simp]:
  assumes "scalar n"
  shows "utf8_decode (utf8 n @ bs) = n # utf8_decode bs"
proof -
  consider "n < 0x80" | "0x80 \<le> n" "n < 0x800" | "0x800 \<le> n" "n < 0x10000" | "0x10000 \<le> n" "n < 0x110000"
    using assms by (fastforce simp: scalar_def)
  then show ?thesis
  proof cases
    case 1
    then show ?thesis by (simp add: utf8_def)
  next
    case 2
    then have "2 \<le> n div 0x40" "n div 0x40 \<le> 31" by auto
    with 2 show ?thesis by (simp add: utf8_def)
  next
    case 3
    with assms show ?thesis by (rule utf8_decode_three)
  next
    case 4
    then show ?thesis by (rule utf8_decode_four)
  qed
qed

lemma utf8_decode_concat: "(\<forall>n \<in> set ns. scalar n) \<Longrightarrow> utf8_decode (concat (map utf8 ns)) = ns"
  by (induction ns) simp_all

lemma utf8_bytes: "scalar n \<Longrightarrow> b \<in> set (utf8 n) \<Longrightarrow> b < 256"
  unfolding utf8_def scalar_def by (auto split: if_splits)

lemma is_high_unat: "is_high c \<longleftrightarrow> 0xD800 \<le> unat c \<and> unat c \<le> 0xDBFF"
  by (simp add: is_high_def word_le_nat_alt)

lemma is_low_unat: "is_low c \<longleftrightarrow> 0xDC00 \<le> unat c \<and> unat c \<le> 0xDFFF"
  by (simp add: is_low_def word_le_nat_alt)

lemma unat_unit: "unat (c :: code_unit) < 0x10000"
  using unsigned_less [of c] by simp

lemma utf16_pair: "is_high c \<Longrightarrow> is_low d \<Longrightarrow> utf16 (pair_point c d) = [c, d]"
proof -
  assume h: "is_high c" "is_low d"
  then have "(unat c - 0xD800) * 0x400 + (unat d - 0xDC00) = pair_point c d - 0x10000"
    "unat d - 0xDC00 < 0x400"
    by (auto simp: pair_point_def is_low_unat)
  then have "(pair_point c d - 0x10000) div 0x400 = unat c - 0xD800"
    "(pair_point c d - 0x10000) mod 0x400 = unat d - 0xDC00"
    by (metis add.commute div_mult_self3 div_less add_0 zero_neq_numeral, metis mod_mult_self3 mod_less)
  moreover have "0xD800 + (unat c - 0xD800) = unat c" "0xDC00 + (unat d - 0xDC00) = unat d"
    using h by (auto simp: is_high_unat is_low_unat)
  ultimately show ?thesis
    by (simp add: utf16_def pair_point_def)
qed

lemma scalar_pair: "is_high c \<Longrightarrow> is_low d \<Longrightarrow> scalar (pair_point c d)"
  by (auto simp: scalar_def pair_point_def is_high_unat is_low_unat)

lemma scalar_unit: "\<not> is_high c \<Longrightarrow> \<not> is_low c \<Longrightarrow> scalar (unat c)"
  using unat_unit [of c] by (auto simp: scalar_def is_high_unat is_low_unat)

lemma utf16_unit: "utf16 (unat (c :: code_unit)) = [c]"
  using unat_unit [of c] by (simp add: utf16_def)

lemma code_points_utf16: "code_points s = Some ps \<Longrightarrow> concat (map utf16 ps) = s"
  by (induction s arbitrary: ps rule: code_points.induct)
    (auto simp: utf16_pair utf16_unit split: if_splits)

lemma code_points_scalar: "code_points s = Some ps \<Longrightarrow> n \<in> set ps \<Longrightarrow> scalar n"
  by (induction s arbitrary: ps n rule: code_points.induct)
    (auto simp: scalar_pair scalar_unit split: if_splits)

lemma scalar_values_code_points: "code_points s = Some ps \<Longrightarrow> scalar_values s = ps"
  by (induction s arbitrary: ps rule: code_points.induct) (auto split: if_splits)

subsection \<open>Percent decoding inverts percent encoding\<close>

lemma hex_value_upper_hex [simp]: "d < 16 \<Longrightarrow> hex_value (upper_hex d) = Some d"
  by (auto simp: hex_value_def upper_hex_def)

lemma percent_decode_pct [simp]: "b < 256 \<Longrightarrow> percent_decode (pct b @ bs) = b # percent_decode bs"
  by (simp add: pct_def)

lemma percent_decode_plain [simp]: "b \<noteq> 37 \<Longrightarrow> percent_decode (b # bs) = b # percent_decode bs"
  by (cases bs rule: percent_decode.cases) (auto split: option.splits)

lemma percent_decode_pcts:
  "(\<forall>b \<in> set bs. b < 256) \<Longrightarrow> percent_decode (concat (map pct bs) @ rest) = bs @ percent_decode rest"
  by (induction bs) simp_all

lemma percent_decode_encode_point:
  "scalar n \<Longrightarrow> percent_decode (encode_point n @ bs) = utf8 n @ percent_decode bs"
  using utf8_bytes [of n]
  by (auto simp: encode_point_def percent_decode_pcts)
    (auto simp: uri_unescaped_def alnum_def utf8_def)

lemma percent_decode_encode_points:
  "(\<forall>n \<in> set ns. scalar n) \<Longrightarrow>
     percent_decode (concat (map encode_point ns)) = concat (map utf8 ns)"
  by (induction ns) (simp_all add: percent_decode_encode_point)

lemma upper_hex_range: "d < 16 \<Longrightarrow> alnum (upper_hex d)"
  by (auto simp: upper_hex_def alnum_def)

lemma pct_set: "b < 256 \<Longrightarrow> x \<in> set (pct b) \<Longrightarrow> x = 37 \<or> alnum x"
  by (auto simp: pct_def intro: upper_hex_range)

lemma encode_point_set:
  assumes "scalar n" "x \<in> set (encode_point n)"
  shows "x = 37 \<or> uri_unescaped x"
proof (cases "uri_unescaped n")
  case True
  with assms show ?thesis by (simp add: encode_point_def)
next
  case False
  with assms obtain b where "b \<in> set (utf8 n)" "x \<in> set (pct b)"
    by (auto simp: encode_point_def)
  with assms(1) have "x = 37 \<or> alnum x"
    by (blast dest: utf8_bytes pct_set)
  then show ?thesis by (auto simp: uri_unescaped_def)
qed

subsection \<open>ASCII text as bytes\<close>

lemma unat_ascii: "b < 128 \<Longrightarrow> unat (of_nat b :: code_unit) = b"
  by (simp add: unat_of_nat)

lemma scalar_values_ascii: "(\<forall>b \<in> set bs. b < 128) \<Longrightarrow> scalar_values (map of_nat bs) = bs"
proof (induction bs rule: induct_list012)
  case (3 b d bs)
  then show ?case by (simp add: is_high_unat is_low_unat unat_ascii)
qed (simp_all add: is_high_unat is_low_unat unat_ascii)

lemma utf8_ascii: "(\<forall>b \<in> set bs. b < 128) \<Longrightarrow> concat (map utf8 bs) = bs"
  by (induction bs) (simp_all add: utf8_def)

lemma search_params_bytes:
  "(\<forall>b \<in> set bs. b < 128) \<Longrightarrow> search_params (63 # map of_nat bs) = form_parse bs"
  by (simp add: search_params_def scalar_values_ascii utf8_ascii)

subsection \<open>The form parser inverts the serialiser\<close>

lemma split_on_last: "x \<notin> set bs \<Longrightarrow> split_on x bs = [bs]"
  by (induction bs) auto

lemma split_on_first: "x \<notin> set bs \<Longrightarrow> split_on x (bs @ x # rest) = bs # split_on x rest"
  by (induction bs) auto

lemma form_pair_split:
  assumes "61 \<notin> set k"
  shows "form_pair (k @ 61 # v) = (form_decode k, form_decode v)"
proof -
  have "takeWhile (\<lambda>b. b \<noteq> 61) (k @ 61 # v) = k" "dropWhile (\<lambda>b. b \<noteq> 61) (k @ 61 # v) = 61 # v"
    using assms by (auto intro: takeWhile_tail dropWhile_append3 simp: takeWhile_append dropWhile_append)
  then show ?thesis by (simp add: form_pair_def)
qed

lemma plus_to_space_append: "plus_to_space (xs @ ys) = plus_to_space xs @ plus_to_space ys"
  by (simp add: plus_to_space_def)

lemma plus_to_space_single: "plus_to_space [b] = [if b = 43 then 32 else b]"
  by (simp add: plus_to_space_def)

lemma plus_to_space_id: "43 \<notin> set bs \<Longrightarrow> plus_to_space bs = bs"
  by (induction bs) (auto simp: plus_to_space_def)

lemma form_byte_cases:
  assumes "b < 256"
  obtains "b = 32" "form_byte b = [43]"
  | "b \<noteq> 32" "b \<noteq> 37" "b \<noteq> 43" "form_byte b = [b]" | "form_byte b = pct b" "43 \<notin> set (pct b)"
proof -
  have "43 \<notin> set (pct b)"
    using assms pct_set [of b 43] by (auto simp: alnum_def)
  then show ?thesis
    using that by (cases "b = 32"; cases "form_unescaped b")
      (auto simp: form_byte_def form_unescaped_def alnum_def)
qed

lemma percent_decode_form_byte:
  "b < 256 \<Longrightarrow> percent_decode (plus_to_space (form_byte b) @ bs) = b # percent_decode bs"
  by (rule form_byte_cases [of b]) (simp_all add: plus_to_space_id plus_to_space_single)

lemma percent_decode_form_bytes:
  "(\<forall>b \<in> set bs. b < 256) \<Longrightarrow> percent_decode (plus_to_space (concat (map form_byte bs))) = bs"
  by (induction bs) (simp_all add: plus_to_space_append percent_decode_form_byte, simp add: plus_to_space_def)

lemma code_points_bmp: "\<forall>c \<in> set s. \<not> is_high c \<and> \<not> is_low c \<Longrightarrow> code_points s \<noteq> None"
  by (induction s rule: code_points.induct) auto

lemma well_formed_lit [simp]: "well_formed (lit s)"
proof -
  have "\<not> is_high c \<and> \<not> is_low c" if "c \<in> set (lit s)" for c
  proof -
    obtain a where "c = of_nat (of_char a)"
      using \<open>c \<in> set (lit s)\<close> by (auto simp: lit_def)
    then have "unat c < 256"
      using code_unit_of_char [of a] nat_of_char_less_256 [of a] by simp
    then show ?thesis
      by (simp add: is_high_unat is_low_unat)
  qed
  then show ?thesis
    unfolding well_formed_def by (intro code_points_bmp) blast
qed

lemma well_formed_scalars:
  assumes "well_formed s"
  shows "\<forall>n \<in> set (scalar_values s). scalar n" "concat (map utf16 (scalar_values s)) = s"
  using assms code_points_scalar code_points_utf16 scalar_values_code_points
  by (auto simp: well_formed_def)

lemma form_decode_encode [simp]:
  assumes "well_formed s"
  shows "form_decode (form_encode s) = s"
proof -
  let ?bs = "concat (map utf8 (scalar_values s))"
  have "\<forall>b \<in> set ?bs. b < 256"
    using well_formed_scalars(1) [OF assms] utf8_bytes by auto
  then show ?thesis
    using well_formed_scalars [OF assms]
    by (simp add: form_decode_def form_encode_def percent_decode_form_bytes utf8_decode_concat)
qed

lemma form_byte_set: "b < 256 \<Longrightarrow> x \<in> set (form_byte b) \<Longrightarrow> x \<noteq> 38 \<and> x \<noteq> 61"
  using pct_set [of b x]
  by (auto simp: form_byte_def form_unescaped_def alnum_def split: if_splits)

lemma form_encode_clean:
  assumes "well_formed s"
  shows "38 \<notin> set (form_encode s)" "61 \<notin> set (form_encode s)"
  using well_formed_scalars(1) [OF assms] utf8_bytes form_byte_set
  by (fastforce simp: form_encode_def)+

lemma form_parse_serialize:
  assumes "\<forall>(k, v) \<in> set ps. well_formed k \<and> well_formed v"
  shows "form_parse (form_serialize ps) = ps"
  using assms
proof (induction ps rule: form_serialize.induct)
  case 1
  show ?case by (simp add: form_parse_def)
next
  case (2 k v)
  then have "38 \<notin> set (form_encode k @ 61 # form_encode v)"
    by (simp add: form_encode_clean)
  with 2 show ?case
    by (simp add: form_parse_def split_on_last form_pair_split form_encode_clean)
next
  case (3 k v p ps)
  then have "38 \<notin> set (form_encode k @ 61 # form_encode v)"
    by (simp add: form_encode_clean)
  then have "split_on 38 (form_serialize ((k, v) # p # ps)) =
      (form_encode k @ 61 # form_encode v) # split_on 38 (form_serialize (p # ps))"
    using split_on_first [of 38 "form_encode k @ 61 # form_encode v"] by simp
  with 3 show ?case
    by (simp add: form_parse_def form_pair_split form_encode_clean)
qed

lemma form_serialize_ascii:
  assumes "\<forall>(k, v) \<in> set ps. well_formed k \<and> well_formed v"
  shows "\<forall>b \<in> set (form_serialize ps). b < 128"
proof -
  have byte: "x < 128" if "b < 256" "x \<in> set (form_byte b)" for b x
    using that pct_set [of b x]
    by (auto simp: form_byte_def form_unescaped_def alnum_def split: if_splits)
  have "\<forall>b \<in> set (form_encode s). b < 128" if "well_formed s" for s
    using well_formed_scalars(1) [OF that] utf8_bytes byte by (fastforce simp: form_encode_def)
  then show ?thesis
    using assms by (induction ps rule: form_serialize.induct) auto
qed

lemma search_params_text:
  assumes "\<forall>(k, v) \<in> set ps. well_formed k \<and> well_formed v"
  shows "search_params (63 # params_text ps) = ps"
  using form_serialize_ascii [OF assms] form_parse_serialize [OF assms]
  by (simp add: search_params_def params_text_def scalar_values_ascii utf8_ascii)

subsection \<open>Reading back an encoded component\<close>

lemma encodeURIComponent_bytes:
  assumes "encodeURIComponent s = Some e"
  obtains bs where "e = map of_nat bs" "\<forall>b \<in> set bs. b = 37 \<or> uri_unescaped b"
    "form_decode bs = s"
proof -
  from assms obtain ps where ps: "code_points s = Some ps" "e = map of_nat (concat (map encode_point ps))"
    by (auto simp: encodeURIComponent_def)
  let ?bs = "concat (map encode_point ps)"
  have sc: "\<forall>n \<in> set ps. scalar n"
    using ps(1) code_points_scalar by blast
  then have set: "\<forall>b \<in> set ?bs. b = 37 \<or> uri_unescaped b"
    using encode_point_set by auto
  then have "43 \<notin> set ?bs"
    by (fastforce simp: uri_unescaped_def alnum_def)
  then have "form_decode ?bs = s"
    using sc ps(1) by (simp add: form_decode_def plus_to_space_id percent_decode_encode_points
        utf8_decode_concat code_points_utf16)
  with ps(2) set show ?thesis by (rule that)
qed

lemma encodeURIComponent_defined: "(\<exists>e. encodeURIComponent s = Some e) \<longleftrightarrow> well_formed s"
  by (auto simp: encodeURIComponent_def well_formed_def)

end
