(* ===== verification/Api_Client.thy ===== *)
theory Api_Client
  imports Uri_Text "HOL-Library.Monad_Syntax"
begin

section \<open>The API client: \<open>api/client.ts\<close>\<close>

text \<open>
  The wire types, the error class, the module-level CSRF token and the function \<open>api\<close>, which
  every store and view uses.  \<open>api\<close> suspends twice, at \<open>fetch\<close> and at \<open>response.json()\<close>; the
  model splits it into the request it issues (\<open>api_request\<close>) and the reaction to the outcome
  (\<open>api_settle\<close>).  The network is a parameter: an outcome is a status with the parsed body, or
  no body when \<open>json()\<close> rejects, or the rejection of \<open>fetch\<close> itself.

  \<open>api\<close> asserts the type of a successful payload without checking it.  The readers
  \<open>as_session\<close>, \<open>as_admin_context\<close> and so on say when a payload has the declared type; the
  stores' reactions are modelled for payloads of that type.
\<close>

subsection \<open>Wire types\<close>

record scope =
  scope_kind :: jstr
  scope_id :: jstr

record actor =
  actor_id :: jstr
  actor_type :: jstr
  display_name :: jstr
  actor_scope :: scope

record session =
  session_actor :: actor
  csrf_token :: jstr
  expires_at :: jstr
  session_request_id :: jstr

record admin_descriptor =
  desc_id :: jstr
  desc_label :: jstr
  desc_path :: jstr
  desc_icon :: jstr
  desc_order :: int
  desc_permissions :: "jstr list option"
  requiredPermissions :: "jstr list option"

record admin_context =
  context_modules :: "admin_descriptor list"
  context_grants :: "jstr list"

definition str_field :: "jval \<Rightarrow> string \<Rightarrow> jstr option" where
  "str_field v k = (case get_prop v k of JStr s \<Rightarrow> Some s | _ \<Rightarrow> None)"

definition num_field :: "jval \<Rightarrow> string \<Rightarrow> int option" where
  "num_field v k = (case get_prop v k of JNum n \<Rightarrow> Some n | _ \<Rightarrow> None)"

fun as_str :: "jval \<Rightarrow> jstr option" where
  "as_str (JStr s) = Some s"
| "as_str _ = None"

fun as_list :: "(jval \<Rightarrow> 'a option) \<Rightarrow> jval \<Rightarrow> 'a list option" where
  "as_list f (JArr vs) = those (map f vs)"
| "as_list f _ = None"

text \<open>An optional member may be absent or null, which the code does not tell apart (it reads these
  members through \<open>??\<close>, \<open>||\<close> and \<open>&&\<close> only); otherwise it has the declared type.\<close>

definition opt_field :: "(jval \<Rightarrow> 'a option) \<Rightarrow> jval \<Rightarrow> string \<Rightarrow> 'a option option" where
  "opt_field f v k = (if nullish (get_prop v k) then Some None else map_option Some (f (get_prop v k)))"

definition as_actor :: "jval \<Rightarrow> actor option" where
  "as_actor v = do {
     i \<leftarrow> str_field v ''id'';
     t \<leftarrow> str_field v ''type'';
     n \<leftarrow> str_field v ''display_name'';
     sk \<leftarrow> str_field (get_prop v ''scope'') ''kind'';
     si \<leftarrow> str_field (get_prop v ''scope'') ''id'';
     Some \<lparr>actor_id = i, actor_type = t, display_name = n,
           actor_scope = \<lparr>scope_kind = sk, scope_id = si\<rparr>\<rparr> }"

definition as_session :: "jval \<Rightarrow> session option" where
  "as_session v = do {
     a \<leftarrow> as_actor (get_prop v ''actor'');
     t \<leftarrow> str_field v ''csrf_token'';
     e \<leftarrow> str_field v ''expires_at'';
     r \<leftarrow> str_field v ''request_id'';
     Some \<lparr>session_actor = a, csrf_token = t, expires_at = e, session_request_id = r\<rparr> }"

definition as_descriptor :: "jval \<Rightarrow> admin_descriptor option" where
  "as_descriptor v = do {
     i \<leftarrow> str_field v ''id'';
     l \<leftarrow> str_field v ''label'';
     p \<leftarrow> str_field v ''path'';
     ic \<leftarrow> str_field v ''icon'';
     n \<leftarrow> num_field v ''order'';
     ps \<leftarrow> opt_field (as_list as_str) v ''permissions'';
     rs \<leftarrow> opt_field (as_list as_str) v ''requiredPermissions'';
     Some \<lparr>desc_id = i, desc_label = l, desc_path = p, desc_icon = ic, desc_order = n,
           desc_permissions = ps, requiredPermissions = rs\<rparr> }"

definition as_admin_context :: "jval \<Rightarrow> admin_context option" where
  "as_admin_context v = do {
     ms \<leftarrow> as_list as_descriptor (get_prop v ''modules'');
     gs \<leftarrow> as_list as_str (get_prop v ''grants'');
     Some \<lparr>context_modules = ms, context_grants = gs\<rparr> }"

subsection \<open>Errors\<close>

record api_error =
  err_status :: nat
  err_code :: jval
  err_message :: jstr
  err_request_id :: jval

text \<open>What a rejected promise carries: an \<open>APIError\<close>, another \<open>Error\<close> with its message, or a
  thrown value that is not an \<open>Error\<close>.\<close>

datatype cause = ApiCause api_error | ErrorCause jstr | OtherCause

definition localizedErrorMessages :: "(jstr \<times> jstr) list" where
  "localizedErrorMessages =
    [
     (lit ''VALIDATION_FAILED'',
      [0x8BF7, 0x6C42, 0x5185, 0x5BB9, 0x65E0, 0x6548, 0xFF0C, 0x8BF7, 0x68C0, 0x67E5,
       0x540E, 0x91CD, 0x8BD5, 0x3002]),
     (lit ''INVALID_QUERY'',
      [0x7B5B, 0x9009, 0x6761, 0x4EF6, 0x65E0, 0x6548, 0xFF0C, 0x8BF7, 0x68C0, 0x67E5,
       0x540E, 0x91CD, 0x8BD5, 0x3002]),
     (lit ''AUTHENTICATION_FAILED'',
      [0x7528, 0x6237, 0x540D, 0x6216, 0x5BC6, 0x7801, 0x9519, 0x8BEF, 0x3002]),
     (lit ''AUTHENTICATION_REQUIRED'',
      [0x8BF7, 0x5148, 0x767B, 0x5F55, 0x3002]),
     (lit ''CSRF_REQUIRED'',
      [0x9875, 0x9762, 0x51ED, 0x636E, 0x5DF2, 0x5931, 0x6548, 0xFF0C, 0x8BF7, 0x5237,
       0x65B0, 0x540E, 0x91CD, 0x8BD5, 0x3002]),
     (lit ''FORBIDDEN'',
      [0x6CA1, 0x6709, 0x6267, 0x884C, 0x6B64, 0x64CD, 0x4F5C, 0x7684, 0x6743, 0x9650,
       0x3002]),
     (lit ''AUTHORIZATION_DENIED'',
      [0x6CA1, 0x6709, 0x6267, 0x884C, 0x6B64, 0x64CD, 0x4F5C, 0x7684, 0x6743, 0x9650,
       0x3002]),
     (lit ''AUTHORIZATION_FAILED'',
      [0x6682, 0x65F6, 0x65E0, 0x6CD5, 0x5B8C, 0x6210, 0x6743, 0x9650, 0x6821, 0x9A8C,
       0x3002]),
     (lit ''NOT_FOUND'',
      [0x8BF7, 0x6C42, 0x7684, 0x5185, 0x5BB9, 0x4E0D, 0x5B58, 0x5728, 0x3002]),
     (lit ''VERSION_CONFLICT'',
      [0x6570, 0x636E, 0x5DF2, 0x53D1, 0x751F, 0x53D8, 0x5316, 0xFF0C, 0x8BF7, 0x5237,
       0x65B0, 0x540E, 0x91CD, 0x8BD5, 0x3002]),
     (lit ''TASKS_UNAVAILABLE'',
      [0x6682, 0x65F6, 0x65E0, 0x6CD5, 0x52A0, 0x8F7D, 0x4EFB, 0x52A1, 0x6570, 0x636E,
       0x3002]),
     (lit ''AUDIT_UNAVAILABLE'',
      [0x6682, 0x65F6, 0x65E0, 0x6CD5, 0x52A0, 0x8F7D, 0x5BA1, 0x8BA1, 0x6570, 0x636E,
       0x3002]),
     (lit ''INTERNAL'',
      [0x64CD, 0x4F5C, 0x5931, 0x8D25, 0xFF0C, 0x8BF7, 0x7A0D, 0x540E, 0x91CD, 0x8BD5,
       0x3002]),
     (lit ''REQUEST_FAILED'',
      [0x8BF7, 0x6C42, 0x5931, 0x8D25, 0xFF0C, 0x8BF7, 0x7A0D, 0x540E, 0x91CD, 0x8BD5,
       0x3002])
    ]"

definition request_failed_text :: jstr where
  "request_failed_text =
     [0x8BF7, 0x6C42, 0x5931, 0x8D25, 0xFF0C, 0x8BF7, 0x7A0D, 0x540E, 0x91CD, 0x8BD5,
      0x3002]"

text \<open>
  The table is an object literal, so indexing it also finds the members of \<open>Object.prototype\<close>.
  Only the text of the result is used (\<open>super(message)\<close> converts it), so the model gives that
  text: the native-function notation of the engine, and that of an object for \<open>__proto__\<close>.
\<close>

definition native_names :: "string list" where
  "native_names =
     [''__defineGetter__'', ''__defineSetter__'', ''hasOwnProperty'', ''__lookupGetter__'',
      ''__lookupSetter__'', ''isPrototypeOf'', ''propertyIsEnumerable'', ''toString'',
      ''valueOf'', ''toLocaleString'']"

definition native_text :: "string \<Rightarrow> jstr" where
  "native_text n = lit (''function '' @ n @ ''() { [native code] }'')"

definition inherited_members :: "(jstr \<times> jstr) list" where
  "inherited_members =
     (lit ''constructor'', native_text ''Object'') # (lit ''__proto__'', lit ''[object Object]'') #
     map (\<lambda>n. (lit n, native_text n)) native_names"

definition localized :: "jval \<Rightarrow> jval" where
  "localized code =
     (case map_of localizedErrorMessages (to_text code) of
        Some m \<Rightarrow> JStr m
      | None \<Rightarrow>
          (case map_of inherited_members (to_text code) of
             Some m \<Rightarrow> JStr m
           | None \<Rightarrow> JUndefined))"

text \<open>The error of a response that is not ok.  A JSON body \<open>null\<close> makes \<open>payload.error\<close> raise.\<close>

definition failure_of :: "nat \<Rightarrow> jval \<Rightarrow> cause" where
  "failure_of status payload =
     (case member payload ''error'' of
        None \<Rightarrow> ErrorCause (type_error_text payload ''error'')
      | Some err \<Rightarrow>
          (let code = coalesce (opt_member err ''code'') (JStr (lit ''REQUEST_FAILED''));
               message = coalesce (localized code)
                           (coalesce (opt_member err ''message'') (JStr request_failed_text))
           in ApiCause \<lparr>err_status = status, err_code = code, err_message = to_text message,
                        err_request_id = coalesce (get_prop payload ''request_id'') (JStr [])\<rparr>))"

subsection \<open>The request \<open>api\<close> issues\<close>

record request_init =
  init_method :: "jstr option"
  init_headers :: "(jstr \<times> jstr) list"
  init_body :: "jstr option"
  init_signal :: "nat option"

definition no_options :: request_init where
  "no_options = \<lparr>init_method = None, init_headers = [], init_body = None, init_signal = None\<rparr>"

record request =
  req_path :: jstr
  req_method :: "jstr option"
  req_headers :: "(jstr \<times> jstr) list"
  req_body :: "jstr option"
  req_signal :: "nat option"
  req_credentials :: jstr

definition lower_unit :: "code_unit \<Rightarrow> code_unit" where
  "lower_unit c = (if 65 \<le> c \<and> c \<le> 90 then c + 32 else c)"

text \<open>Header names compare without regard to case; the header list keeps them in lower case.\<close>

definition header_set :: "jstr \<Rightarrow> jstr \<Rightarrow> (jstr \<times> jstr) list \<Rightarrow> (jstr \<times> jstr) list" where
  "header_set n v hs = assoc_set (map lower_unit n) v hs"

definition headers_of :: "(jstr \<times> jstr) list \<Rightarrow> (jstr \<times> jstr) list" where
  "headers_of = map (\<lambda>(n, v). (map lower_unit n, v))"

definition sends_token :: "jstr \<Rightarrow> jstr option \<Rightarrow> bool" where
  "sends_token token meth \<longleftrightarrow>
     token \<noteq> [] \<and>
     (case meth of None \<Rightarrow> False | Some m \<Rightarrow> m \<noteq> [] \<and> m \<notin> {lit ''GET'', lit ''HEAD''})"

definition api_request :: "jstr \<Rightarrow> jstr \<Rightarrow> request_init \<Rightarrow> request" where
  "api_request token path opts =
     (let h0 = headers_of (init_headers opts);
          h1 = header_set (lit ''Accept'') (lit ''application/json'') h0;
          h2 = (if init_body opts \<noteq> None
                then header_set (lit ''Content-Type'') (lit ''application/json'') h1 else h1);
          h3 = (if sends_token token (init_method opts)
                then header_set (lit ''X-CSRF-Token'') token h2 else h2)
      in \<lparr>req_path = path, req_method = init_method opts, req_headers = h3,
          req_body = init_body opts, req_signal = init_signal opts,
          req_credentials = lit ''same-origin''\<rparr>)"

subsection \<open>The reaction to the outcome\<close>

datatype fetch_outcome =
    Response nat "jval option" \<comment> \<open>status, and the parsed body unless \<open>json()\<close> rejects\<close>
  | FetchRejected cause

type_synonym 's expired_handler = "('s \<Rightarrow> 's) option"

definition response_ok :: "nat \<Rightarrow> bool" where
  "response_ok status \<longleftrightarrow> 200 \<le> status \<and> status \<le> 299"

definition exempt_paths :: "jstr list" where
  "exempt_paths = [lit ''/api/auth/login'', lit ''/api/auth/session'']"

text \<open>\<open>await response.json().catch(() => ({}))\<close>.\<close>

definition payload_of :: "jval option \<Rightarrow> jval" where
  "payload_of body = (case body of None \<Rightarrow> empty_object | Some v \<Rightarrow> v)"

text \<open>\<open>authenticationExpiredHandler?.()\<close>.\<close>

definition run_handler :: "'s expired_handler \<Rightarrow> 's \<Rightarrow> 's" where
  "run_handler handler s = (case handler of None \<Rightarrow> s | Some h \<Rightarrow> h s)"

definition api_settle ::
    "'s expired_handler \<Rightarrow> jstr \<Rightarrow> fetch_outcome \<Rightarrow> 's \<Rightarrow> (cause + jval) \<times> 's" where
  "api_settle handler path outcome s =
     (case outcome of
        FetchRejected c \<Rightarrow> (Inl c, s)
      | Response status body \<Rightarrow>
          if status = 204 then (Inr JUndefined, s)
          else if response_ok status then (Inr (payload_of body), s)
          else
            (case failure_of status (payload_of body) of
               ApiCause e \<Rightarrow>
                 (Inl (ApiCause e),
                  if status = 401 \<and> path \<notin> set exempt_paths then run_handler handler s else s)
             | c \<Rightarrow> (Inl c, s)))"

subsection \<open>Request headers\<close>

lemma header_names [simp]:
  "map lower_unit (lit ''Accept'') = lit ''accept''"
  "map lower_unit (lit ''Content-Type'') = lit ''content-type''"
  "map lower_unit (lit ''X-CSRF-Token'') = lit ''x-csrf-token''"
  by (simp_all add: lit_def lower_unit_def)

text \<open>
  C9.  The CSRF token travels exactly on the requests that need it: whatever headers a caller
  passes (as long as it does not set the token header itself), a request carries the current
  token if and only if one is held and the method is given and is neither GET nor HEAD; it always
  asks for JSON, announces JSON when it has a body, and stays on the same origin.
\<close>

theorem api_request_headers:
  assumes "lit ''x-csrf-token'' \<notin> fst ` set (headers_of (init_headers opts))"
    and "req = api_request token path opts"
  shows "map_of (req_headers req) (lit ''x-csrf-token'') =
           (if token \<noteq> [] \<and> (\<exists>m. init_method opts = Some m \<and> m \<noteq> [] \<and> m \<noteq> lit ''GET'' \<and> m \<noteq> lit ''HEAD'')
            then Some token else None) \<and>
         map_of (req_headers req) (lit ''accept'') = Some (lit ''application/json'') \<and>
         (init_body opts \<noteq> None \<longrightarrow>
           map_of (req_headers req) (lit ''content-type'') = Some (lit ''application/json'')) \<and>
         req_credentials req = lit ''same-origin''"
proof -
  have "map_of (headers_of (init_headers opts)) (lit ''x-csrf-token'') = None"
    using assms(1) by (simp add: map_of_eq_None_iff)
  moreover have "sends_token token (init_method opts) \<longleftrightarrow>
      token \<noteq> [] \<and> (\<exists>m. init_method opts = Some m \<and> m \<noteq> [] \<and> m \<noteq> lit ''GET'' \<and> m \<noteq> lit ''HEAD'')"
    by (auto simp: sends_token_def split: option.split)
  ultimately show ?thesis
    by (simp add: assms(2) api_request_def Let_def header_set_def) blast
qed

theorem api_request_headers_witness:
  "map_of (req_headers (api_request (lit ''tok'') (lit ''/api/records'')
      (no_options\<lparr>init_method := Some (lit ''POST''), init_body := Some (lit ''{}'')\<rparr>)))
     (lit ''x-csrf-token'') = Some (lit ''tok'')"
  using api_request_headers
    [of "no_options\<lparr>init_method := Some (lit ''POST''), init_body := Some (lit ''{}'')\<rparr>"
        "api_request (lit ''tok'') (lit ''/api/records'')
           (no_options\<lparr>init_method := Some (lit ''POST''), init_body := Some (lit ''{}'')\<rparr>)"
        "lit ''tok''" "lit ''/api/records''"]
  by (simp add: no_options_def headers_of_def)

subsection \<open>Outcomes\<close>

lemma failure_of_cases:
  obtains e where "failure_of st payload = ApiCause e" "err_status e = st"
  | "nullish payload" "failure_of st payload = ErrorCause (type_error_text payload ''error'')"
  by (cases "nullish payload") (auto simp: failure_of_def member_def Let_def)

lemma response_ok_codes [simp]:
  "response_ok 200" "response_ok 201" "response_ok 204" "\<not> response_ok 401"
  by (simp_all add: response_ok_def)

lemma api_settle_rejected [simp]: "api_settle h path (FetchRejected c) s = (Inl c, s)"
  by (simp add: api_settle_def)

lemma api_settle_204 [simp]: "api_settle h path (Response 204 body) s = (Inr JUndefined, s)"
  by (simp add: api_settle_def)

lemma api_settle_ok [simp]:
  "response_ok st \<Longrightarrow> st \<noteq> 204 \<Longrightarrow>
     api_settle h path (Response st body) s = (Inr (payload_of body), s)"
  by (simp add: api_settle_def)

lemma api_settle_not_ok:
  "\<not> response_ok st \<Longrightarrow>
     api_settle h path (Response st body) s =
       (Inl (failure_of st (payload_of body)),
        if st = 401 \<and> path \<notin> set exempt_paths \<and> \<not> nullish (payload_of body)
        then run_handler h s else s)"
  using response_ok_codes(3)
  by (cases rule: failure_of_cases [of st "payload_of body"])
    (auto simp: api_settle_def failure_of_def member_def Let_def)

text \<open>How the promise settles depends on the path and the outcome only.\<close>

lemma api_settle_result: "fst (api_settle h path oc s) = fst (api_settle h' path oc s')"
  by (auto simp: api_settle_def split: fetch_outcome.splits cause.splits)

lemma api_settle_exempt: "path \<in> set exempt_paths \<Longrightarrow> snd (api_settle h path oc s) = s"
  by (auto simp: api_settle_def split: fetch_outcome.splits cause.splits)

lemma api_settle_state:
  "snd (api_settle h path oc s) = s \<or>
   ((\<exists>e. fst (api_settle h path oc s) = Inl (ApiCause e) \<and> err_status e = 401) \<and>
    snd (api_settle h path oc s) = run_handler h s)"
proof (cases oc)
  case (Response st body)
  then show ?thesis
    by (cases rule: failure_of_cases [of st "payload_of body"])
      (auto simp: api_settle_def split: if_splits)
qed simp

definition api_result :: "jstr \<Rightarrow> fetch_outcome \<Rightarrow> cause + jval" where
  "api_result path oc = fst (api_settle None path oc ())"

lemma api_settle_api_result: "fst (api_settle h path oc s) = api_result path oc"
  unfolding api_result_def by (rule api_settle_result)

text \<open>
  C10.  \<open>api\<close> resolves exactly on a 2xx response.  Otherwise it rejects, and it touches its
  surroundings only by calling the registered expiry handler, which happens only when the
  rejection is an API error with status 401 from a path other than the login and session paths.
\<close>

theorem api_settle_contract:
  "(case fst (api_settle h path outcome s) of
      Inr v \<Rightarrow> snd (api_settle h path outcome s) = s \<and>
        (\<exists>st body. outcome = Response st body \<and> response_ok st)
    | Inl c \<Rightarrow> \<not> (\<exists>st body. outcome = Response st body \<and> response_ok st) \<and>
        (snd (api_settle h path outcome s) = s \<or>
         (path \<notin> set exempt_paths \<and> (\<exists>e. c = ApiCause e \<and> err_status e = 401) \<and>
          snd (api_settle h path outcome s) = run_handler h s)))"
proof (cases outcome)
  case (FetchRejected c)
  then show ?thesis by simp
next
  case (Response st body)
  show ?thesis
  proof (cases "response_ok st")
    case True
    with Response show ?thesis by (cases "st = 204") simp_all
  next
    case False
    with Response show ?thesis
      by (cases rule: failure_of_cases [of st "payload_of body"])
        (auto simp: api_settle_not_ok failure_of_def member_def Let_def)
  qed
qed

subsection \<open>Error messages\<close>

definition error_body :: "jstr \<Rightarrow> jstr \<Rightarrow> jstr \<Rightarrow> jval" where
  "error_body code msg rid =
     JObj [(lit ''error'', JObj [(lit ''code'', JStr code), (lit ''message'', JStr msg)]),
           (lit ''request_id'', JStr rid)]"

text \<open>The text of a field of the body, and of its error object, unless the field is missing or null.\<close>

definition body_field :: "jval \<Rightarrow> string \<Rightarrow> jstr option" where
  "body_field v k = (if nullish (get_prop v k) then None else Some (to_text (get_prop v k)))"

definition error_field :: "jval option \<Rightarrow> string \<Rightarrow> jstr option" where
  "error_field body k = body_field (get_prop (payload_of body) ''error'') k"

lemma opt_member_get: "opt_member v k = get_prop v k"
  by (cases v) (simp_all add: opt_member_def)

lemma to_text_coalesce:
  "to_text (coalesce (get_prop v k) (JStr d)) = (case body_field v k of None \<Rightarrow> d | Some t \<Rightarrow> t)"
  by (simp add: body_field_def coalesce_def)

lemma localized_text:
  assumes "to_text code \<notin> fst ` set inherited_members"
  shows "to_text (coalesce (localized code) v) =
    (case map_of localizedErrorMessages (to_text code) of None \<Rightarrow> to_text v | Some t \<Rightarrow> t)"
proof -
  have "map_of inherited_members (to_text code) = None"
    using assms by (simp add: map_of_eq_None_iff)
  then show ?thesis
    by (simp add: localized_def split: option.split)
qed

lemma request_failed_known:
  "map_of localizedErrorMessages (lit ''REQUEST_FAILED'') = Some request_failed_text"
  "lit ''REQUEST_FAILED'' \<notin> fst ` set inherited_members"
  by (simp_all add: localizedErrorMessages_def request_failed_text_def inherited_members_def native_names_def)

text \<open>
  C33.  Every response that is not ok, with whatever body, has a message for the user.  \<open>api\<close> rejects
  with an \<open>APIError\<close> that has the response's status, the code and the request id of the body
  (\<open>REQUEST_FAILED\<close> and the empty text when the body has none), and as its message: the text of the
  client's own table for a code the table knows; for any other code the server's message, or the
  default text when there is none; and the default text when the body has no code, be it that it is
  not JSON at all, has no error object, or an error object with a message but no code.  Excluded are a
  body that is the JSON value \<open>null\<close>, and as codes the member names of \<open>Object.prototype\<close>, which
  indexing the table finds as well.
\<close>

theorem api_error_message:
  assumes "\<not> response_ok st" and "\<not> nullish (payload_of body)"
    and "\<And>code. error_field body ''code'' = Some code \<Longrightarrow> code \<notin> fst ` set inherited_members"
  shows "\<exists>e. fst (api_settle h path (Response st body) s) = Inl (ApiCause e) \<and> err_status e = st \<and>
    to_text (err_code e) =
      (case error_field body ''code'' of None \<Rightarrow> lit ''REQUEST_FAILED'' | Some code \<Rightarrow> code) \<and>
    to_text (err_request_id e) =
      (case body_field (payload_of body) ''request_id'' of None \<Rightarrow> [] | Some rid \<Rightarrow> rid) \<and>
    err_message e =
      (case error_field body ''code'' of
         None \<Rightarrow> request_failed_text
       | Some code \<Rightarrow>
           (case map_of localizedErrorMessages code of
              Some t \<Rightarrow> t
            | None \<Rightarrow> (case error_field body ''message'' of None \<Rightarrow> request_failed_text | Some m \<Rightarrow> m)))"
proof -
  let ?err = "get_prop (payload_of body) ''error''"
  let ?code = "coalesce (get_prop ?err ''code'') (JStr (lit ''REQUEST_FAILED''))"
  have c: "to_text ?code = (case error_field body ''code'' of None \<Rightarrow> lit ''REQUEST_FAILED'' | Some code \<Rightarrow> code)"
    by (simp add: to_text_coalesce error_field_def)
  then have "to_text ?code \<notin> fst ` set inherited_members"
    using assms(3) request_failed_known(2) by (simp split: option.splits)
  note tx = localized_text [OF this, unfolded c]
  show ?thesis
    using assms(1,2) c request_failed_known(1)
    by (simp add: api_settle_not_ok failure_of_def member_def opt_member_get Let_def tx to_text_coalesce
        flip: error_field_def split: option.split)
qed

text \<open>At work: a gateway's page that is not JSON, a code the table does not know without and with a
  message, and a message without a code.\<close>

theorem api_error_message_witness:
  "(\<exists>e. fst (api_settle None (lit ''/api/domain'') (Response 502 None) ()) = Inl (ApiCause e) \<and>
      err_status e = 502 \<and> err_message e = request_failed_text) \<and>
   (\<exists>e. fst (api_settle None (lit ''/api/domain'') (Response 422
        (Some (JObj [(lit ''error'', JObj [(lit ''code'', JStr (lit ''DOMAIN_RULE_FAILED''))])]))) ()) = Inl (ApiCause e) \<and>
      to_text (err_code e) = lit ''DOMAIN_RULE_FAILED'' \<and> err_message e = request_failed_text) \<and>
   (\<exists>e. fst (api_settle None (lit ''/api/domain'') (Response 422
        (Some (error_body (lit ''DOMAIN_RULE_FAILED'') (lit ''not allowed'') (lit ''r1'')))) ()) = Inl (ApiCause e) \<and>
      to_text (err_request_id e) = lit ''r1'' \<and> err_message e = lit ''not allowed'') \<and>
   (\<exists>e. fst (api_settle None (lit ''/api/domain'') (Response 422
        (Some (JObj [(lit ''error'', JObj [(lit ''message'', JStr (lit ''not allowed''))])]))) ()) = Inl (ApiCause e) \<and>
      err_message e = request_failed_text)"
proof -
  have u: "map_of localizedErrorMessages (lit ''DOMAIN_RULE_FAILED'') = None"
      "lit ''DOMAIN_RULE_FAILED'' \<notin> fst ` set inherited_members"
    by (simp_all add: localizedErrorMessages_def inherited_members_def native_names_def)
  note fields = error_field_def body_field_def payload_of_def empty_object_def error_body_def
  show ?thesis
    using api_error_message [of 502 None None "lit ''/api/domain''" "()"]
      api_error_message [of 422 "Some (JObj [(lit ''error'', JObj [(lit ''code'', JStr (lit ''DOMAIN_RULE_FAILED''))])])"
        None "lit ''/api/domain''" "()"]
      api_error_message [of 422 "Some (error_body (lit ''DOMAIN_RULE_FAILED'') (lit ''not allowed'') (lit ''r1''))"
        None "lit ''/api/domain''" "()"]
      api_error_message [of 422 "Some (JObj [(lit ''error'', JObj [(lit ''message'', JStr (lit ''not allowed''))])])"
        None "lit ''/api/domain''" "()"] u
    by (auto simp: fields response_ok_def)
qed

text \<open>
  The exclusion is needed: for the code \<open>constructor\<close> the user is shown the engine's text for a
  native function instead of the server's detail.
\<close>

lemma inherited_code_hides_detail:
  "\<exists>e. failure_of 422 (error_body (lit ''constructor'') (lit ''not allowed'') []) = ApiCause e \<and>
       err_message e = lit ''function Object() { [native code] }''"
  by (simp add: failure_of_def error_body_def member_def localized_def localizedErrorMessages_def
      inherited_members_def native_text_def)

text \<open>
  A 401 whose body is the JSON text \<open>null\<close> does not end the session: reading the error code raises
  before the status is looked at.
\<close>

lemma null_body_keeps_session:
  "api_settle handler path (Response 401 (Some JNull)) s = (Inl (ErrorCause (type_error_text JNull ''error'')), s)"
  by (simp add: api_settle_def response_ok_def payload_of_def failure_of_def member_def)

end
