(* ===== verification/App_Store.thy ===== *)
theory App_Store
  imports Api_Client
begin

section \<open>Application metadata: \<open>stores/app.tsx\<close>\<close>

text \<open>
  The provider's state is the metadata, the flag \<open>loaded\<close>, the document title it writes and the
  ref \<open>loadPromise\<close>.  Of the promise only its progress matters: absent, pending, or fulfilled
  (a rejected promise is removed from the ref at once).  \<open>app_load\<close> is the synchronous part of
  \<open>load\<close> and says whether it issues a request; \<open>app_settle\<close> is the reaction to the outcome of
  that request and says how the promise that \<open>load\<close> returned settles.
\<close>

datatype load_promise = NoPromise | PendingPromise | FulfilledPromise

record app_state =
  app_name :: jval
  app_version :: jval
  app_loaded :: bool
  app_title :: "jstr option" \<comment> \<open>the title written to the document, if any\<close>
  app_promise :: load_promise

definition default_name :: jstr where
  "default_name = [0x7BA1, 0x7406, 0x540E, 0x53F0]"

definition app_init :: app_state where
  "app_init = \<lparr>app_name = JStr default_name, app_version = JStr [], app_loaded = False,
     app_title = None, app_promise = NoPromise\<rparr>"

definition app_load :: "app_state \<Rightarrow> bool \<times> app_state" where
  "app_load s =
     (case app_promise s of
        NoPromise \<Rightarrow> (True, s\<lparr>app_promise := PendingPromise\<rparr>)
      | _ \<Rightarrow> (False, s))"

definition app_settle :: "cause + jval \<Rightarrow> app_state \<Rightarrow> (cause + unit) \<times> app_state" where
  "app_settle res s =
     (case res of
        Inl c \<Rightarrow> (Inl c, s\<lparr>app_promise := NoPromise\<rparr>)
      | Inr v \<Rightarrow>
          (case member v ''name'' of
             None \<Rightarrow> (Inl (ErrorCause (type_error_text v ''name'')), s\<lparr>app_promise := NoPromise\<rparr>)
           | Some n \<Rightarrow>
               (let name = (if truthy n then n else JStr default_name)
                in (Inr (), s\<lparr>app_name := name, app_version := get_prop v ''version'',
                       app_title := Some (to_text name @ [32] @ default_name),
                       app_loaded := True, app_promise := FulfilledPromise\<rparr>))))"

text \<open>What the provider's consumers see: the metadata, the flag and \<open>load\<close>.\<close>

record app_value =
  context_name :: jval
  context_version :: jval
  context_loaded :: bool
  context_load :: "app_state \<Rightarrow> bool \<times> app_state"

definition app_context :: "app_state \<Rightarrow> app_value" where
  "app_context s =
     \<lparr>context_name = app_name s, context_version = app_version s, context_loaded = app_loaded s, context_load = app_load\<rparr>"

lemma app_settle_promise:
  "app_promise (snd (app_settle res s)) = (case fst (app_settle res s) of Inl _ \<Rightarrow> NoPromise | Inr _ \<Rightarrow> FulfilledPromise)"
  by (auto simp: app_settle_def Let_def split: sum.split option.split)

lemma app_load_promise:
  "app_promise (snd (app_load s)) =
     (if app_promise s = FulfilledPromise then FulfilledPromise else PendingPromise)"
  by (cases "app_promise s") (simp_all add: app_load_def)

end
