(* ===== verification/Auth_Store.thy ===== *)
theory Auth_Store
  imports App_Store
begin

section \<open>Sessions: \<open>stores/auth.tsx\<close> and \<open>stores/auth.oidc.tsx\<close>\<close>

text \<open>
  The provider's React state is the record \<open>auth_state\<close>.  \<open>world\<close> adds what its callbacks
  reach: the metadata provider, the CSRF token and the expiry handler of the API client module,
  the run of \<open>initialize\<close> that is in progress (the ref \<open>initializePromise\<close> together with the
  state of its \<open>Promise.all\<close>), and the requests in flight.

  A callback runs to its first \<open>await\<close> in one step; each later segment is the reaction to the
  outcome of one request, and the step relation delivers outcomes in any order.  A request in
  flight is kept with the continuation that waits for it, a value of \<open>call\<close>: \<open>CallOther\<close>
  stands for the requests of the module views, which matter here because a 401 among them expires
  the session.
\<close>

record auth_state =
  auth_actor :: "actor option"
  auth_modules :: "admin_descriptor list"
  auth_grants :: "jstr set"
  initialized :: bool
  initializationError :: jstr
  busy :: bool

definition auth_init :: auth_state where
  "auth_init = \<lparr>auth_actor = None, auth_modules = [], auth_grants = {}, initialized = False,
     initializationError = [], busy = False\<rparr>"

definition authenticated :: "auth_state \<Rightarrow> bool" where
  "authenticated a \<longleftrightarrow> auth_actor a \<noteq> None"

definition can :: "auth_state \<Rightarrow> jstr \<Rightarrow> bool" where
  "can a permission \<longleftrightarrow> permission \<in> auth_grants a"

datatype call =
    CallMeta
  | CallSession nat
  | CallInitContext nat session
  | CallLogin
  | CallLoginContext session
  | CallLogout
  | CallOther jstr

record init_run =
  run_id :: nat
  meta_ready :: bool
  answer :: "session option option"

record world =
  app :: app_state
  auth :: auth_state
  csrfToken :: jstr
  handler_on :: bool
  init_run :: "init_run option"
  pending :: "(nat \<times> call \<times> request) list"
  next_call :: nat

definition world_init :: world where
  "world_init = \<lparr>app = app_init, auth = auth_init, csrfToken = [], handler_on = True,
     init_run = None, pending = [], next_call = 0\<rparr>"

text \<open>How the callbacks' promises settle, for the components that await them.\<close>

datatype signal =
    Silent
  | LoginResolved
  | LoginRejected cause
  | LogoutResolved
  | LogoutRejected cause

subsection \<open>Requests\<close>

fun call_path :: "call \<Rightarrow> jstr" where
  "call_path CallMeta = lit ''/api/meta''"
| "call_path (CallSession _) = lit ''/api/auth/session''"
| "call_path (CallInitContext _ _) = lit ''/api/admin/context''"
| "call_path CallLogin = lit ''/api/auth/login''"
| "call_path (CallLoginContext _) = lit ''/api/admin/context''"
| "call_path CallLogout = lit ''/api/auth/logout''"
| "call_path (CallOther p) = p"

definition post :: "jstr \<Rightarrow> request_init" where
  "post body = no_options\<lparr>init_method := Some (lit ''POST''), init_body := Some body\<rparr>"

definition send :: "call \<Rightarrow> request_init \<Rightarrow> world \<Rightarrow> world" where
  "send c opts w =
     w\<lparr>pending := pending w @ [(next_call w, c, api_request (csrfToken w) (call_path c) opts)],
       next_call := Suc (next_call w)\<rparr>"

subsection \<open>\<open>expire\<close> and \<open>accept\<close>\<close>

text \<open>The two setters of the API client module; the effect of the provider registers \<open>expire\<close> when the
  provider is mounted, and its clean-up unregisters it.\<close>

definition setCSRFToken :: "jstr \<Rightarrow> world \<Rightarrow> world" where
  [simp]: "setCSRFToken token w = w\<lparr>csrfToken := token\<rparr>"

definition setAuthenticationExpiredHandler :: "bool \<Rightarrow> world \<Rightarrow> world" where
  [simp]: "setAuthenticationExpiredHandler registered w = w\<lparr>handler_on := registered\<rparr>"

definition auth_unmount :: "world \<Rightarrow> world" where
  "auth_unmount w = setAuthenticationExpiredHandler False w"

definition expire :: "world \<Rightarrow> world" where
  "expire w =
     setCSRFToken [] (w\<lparr>auth := (auth w)\<lparr>auth_actor := None, auth_modules := [], auth_grants := {}\<rparr>\<rparr>)"

definition accept_start :: "session \<Rightarrow> call \<Rightarrow> world \<Rightarrow> world" where
  "accept_start s c w = send c no_options (setCSRFToken (csrf_token s) w)"

definition accept_done :: "session \<Rightarrow> admin_context \<Rightarrow> world \<Rightarrow> world" where
  "accept_done s ctx w =
     w\<lparr>auth := (auth w)\<lparr>auth_actor := Some (session_actor s), auth_modules := context_modules ctx,
       auth_grants := set (context_grants ctx)\<rparr>\<rparr>"

definition accept_fail :: "world \<Rightarrow> world" where
  "accept_fail w = setCSRFToken [] w"

subsection \<open>\<open>initialize\<close>\<close>

definition unavailable_text :: jstr where
  "unavailable_text =
     [0x5E94, 0x7528, 0x670D, 0x52A1, 0x6682, 0x65F6, 0x4E0D, 0x53EF, 0x7528, 0xFF0C,
      0x8BF7, 0x7A0D, 0x540E, 0x91CD, 0x8BD5, 0x3002]"

fun cause_message :: "jstr \<Rightarrow> cause \<Rightarrow> jstr" where
  "cause_message fallback (ApiCause e) = err_message e"
| "cause_message fallback _ = fallback"

definition initialize :: "world \<Rightarrow> world" where
  "initialize w =
     (case init_run w of
        Some _ \<Rightarrow> w
      | None \<Rightarrow>
          (let w1 = w\<lparr>auth := (auth w)\<lparr>initialized := False, initializationError := []\<rparr>\<rparr>;
               (issue, a) = app_load (app w1);
               w2 = w1\<lparr>app := a\<rparr>;
               w3 = (if issue then send CallMeta no_options w2 else w2);
               r = next_call w3;
               w4 = send (CallSession r) no_options w3
           in w4\<lparr>init_run := Some \<lparr>run_id = r,
                   meta_ready = (app_promise a = FulfilledPromise), answer = None\<rparr>\<rparr>))"

definition init_finish :: "nat \<Rightarrow> world \<Rightarrow> world" where
  "init_finish i w =
     w\<lparr>auth := (auth w)\<lparr>initialized := True\<rparr>,
       init_run := (case init_run w of
                      None \<Rightarrow> None
                    | Some r \<Rightarrow> if run_id r = i then None else Some r)\<rparr>"

definition init_fail :: "nat \<Rightarrow> cause \<Rightarrow> world \<Rightarrow> world" where
  "init_fail i c w =
     (let w1 = expire w
      in init_finish i
           (w1\<lparr>auth := (auth w1)\<lparr>initializationError := cause_message unavailable_text c\<rparr>\<rparr>))"

text \<open>The \<open>then\<close> after \<open>Promise.all\<close>: it runs once both parts are there.\<close>

definition init_advance :: "init_run \<Rightarrow> world \<Rightarrow> world" where
  "init_advance r w =
     (let w1 = w\<lparr>init_run := Some r\<rparr>
      in if meta_ready r then
           (case answer r of
              None \<Rightarrow> w1
            | Some None \<Rightarrow> init_finish (run_id r) w1
            | Some (Some s) \<Rightarrow> accept_start s (CallInitContext (run_id r) s) w1)
         else w1)"

definition settle_meta :: "cause + jval \<Rightarrow> world \<Rightarrow> world" where
  "settle_meta res w =
     (let (out, a) = app_settle res (app w); w1 = w\<lparr>app := a\<rparr>
      in case init_run w1 of
           None \<Rightarrow> w1
         | Some r \<Rightarrow>
             if meta_ready r then w1
             else (case out of
                     Inl c \<Rightarrow> init_fail (run_id r) c w1
                   | Inr _ \<Rightarrow> init_advance (r\<lparr>meta_ready := True\<rparr>) w1))"

text \<open>The session request of a run that already ended is ignored: its \<open>Promise.all\<close> has settled.\<close>

definition settle_session :: "nat \<Rightarrow> cause + jval \<Rightarrow> world \<Rightarrow> world option" where
  "settle_session i res w =
     (case init_run w of
        None \<Rightarrow> Some w
      | Some r \<Rightarrow>
          if run_id r \<noteq> i \<or> answer r \<noteq> None then Some w
          else
            (case res of
               Inl (ApiCause e) \<Rightarrow>
                 if err_status e = 401 then Some (init_advance (r\<lparr>answer := Some None\<rparr>) w)
                 else Some (init_fail i (ApiCause e) w)
             | Inl c \<Rightarrow> Some (init_fail i c w)
             | Inr v \<Rightarrow>
                 if truthy v then
                   map_option (\<lambda>s. init_advance (r\<lparr>answer := Some (Some s)\<rparr>) w) (as_session v)
                 else Some (init_advance (r\<lparr>answer := Some None\<rparr>) w)))"

definition settle_init_context :: "nat \<Rightarrow> session \<Rightarrow> cause + jval \<Rightarrow> world \<Rightarrow> world option" where
  "settle_init_context i s res w =
     (case res of
        Inl c \<Rightarrow> Some (init_fail i c (accept_fail w))
      | Inr v \<Rightarrow> map_option (\<lambda>ctx. init_finish i (accept_done s ctx w)) (as_admin_context v))"

subsection \<open>\<open>login\<close> and \<open>logout\<close>\<close>

definition set_busy :: "bool \<Rightarrow> world \<Rightarrow> world" where
  "set_busy b w = w\<lparr>auth := (auth w)\<lparr>busy := b\<rparr>\<rparr>"

definition login_body :: "jstr \<Rightarrow> jstr \<Rightarrow> jstr" where
  "login_body username password =
     json_stringify (JObj [(lit ''username'', JStr username), (lit ''password'', JStr password)])"

definition login :: "jstr \<Rightarrow> jstr \<Rightarrow> world \<Rightarrow> world" where
  "login username password w = send CallLogin (post (login_body username password)) (set_busy True w)"

definition settle_login :: "cause + jval \<Rightarrow> world \<Rightarrow> (world \<times> signal) option" where
  "settle_login res w =
     (case res of
        Inl c \<Rightarrow> Some (set_busy False w, LoginRejected c)
      | Inr v \<Rightarrow> map_option (\<lambda>s. (accept_start s (CallLoginContext s) w, Silent)) (as_session v))"

definition settle_login_context :: "session \<Rightarrow> cause + jval \<Rightarrow> world \<Rightarrow> (world \<times> signal) option" where
  "settle_login_context s res w =
     (case res of
        Inl c \<Rightarrow> Some (set_busy False (accept_fail w), LoginRejected c)
      | Inr v \<Rightarrow>
          map_option (\<lambda>ctx. (set_busy False (accept_done s ctx w), LoginResolved)) (as_admin_context v))"

definition logout :: "world \<Rightarrow> world" where
  "logout w = send CallLogout (post (lit ''{}'')) (set_busy True w)"

definition settle_logout :: "cause + jval \<Rightarrow> world \<Rightarrow> world \<times> signal" where
  "settle_logout res w =
     (case res of
        Inl c \<Rightarrow> (set_busy False w, LogoutRejected c)
      | Inr _ \<Rightarrow> (set_busy False (expire w), LogoutResolved))"

subsection \<open>The context value\<close>

text \<open>What the provider's consumers see: the state and the callbacks.\<close>

record auth_value =
  value_actor :: "actor option"
  value_modules :: "admin_descriptor list"
  value_grants :: "jstr set"
  value_initialized :: bool
  value_initializationError :: jstr
  value_busy :: bool
  value_authenticated :: bool
  value_can :: "jstr \<Rightarrow> bool"
  value_initialize :: "world \<Rightarrow> world"
  value_login :: "jstr \<Rightarrow> jstr \<Rightarrow> world \<Rightarrow> world"
  value_logout :: "world \<Rightarrow> world"

definition auth_context :: "auth_state \<Rightarrow> auth_value" where
  "auth_context a =
     \<lparr>value_actor = auth_actor a, value_modules = auth_modules a, value_grants = auth_grants a,
      value_initialized = initialized a, value_initializationError = initializationError a,
      value_busy = busy a, value_authenticated = authenticated a, value_can = can a,
      value_initialize = initialize, value_login = login, value_logout = logout\<rparr>"

subsection \<open>Delivering an outcome\<close>

text \<open>\<open>None\<close>: the payload of a successful response does not have the type the caller declares.\<close>

fun react :: "call \<Rightarrow> cause + jval \<Rightarrow> world \<Rightarrow> (world \<times> signal) option" where
  "react CallMeta res w = Some (settle_meta res w, Silent)"
| "react (CallSession i) res w = map_option (\<lambda>w'. (w', Silent)) (settle_session i res w)"
| "react (CallInitContext i s) res w = map_option (\<lambda>w'. (w', Silent)) (settle_init_context i s res w)"
| "react CallLogin res w = settle_login res w"
| "react (CallLoginContext s) res w = settle_login_context s res w"
| "react CallLogout res w = Some (settle_logout res w)"
| "react (CallOther p) res w = Some (w, Silent)"

definition expiry_handler :: "world \<Rightarrow> world expired_handler" where
  "expiry_handler w = (if handler_on w then Some expire else None)"

definition deliver :: "nat \<Rightarrow> fetch_outcome \<Rightarrow> world \<Rightarrow> (world \<times> signal) option" where
  "deliver i oc w =
     (case map_of (pending w) i of
        None \<Rightarrow> None
      | Some (c, rq) \<Rightarrow>
          (let w1 = w\<lparr>pending := filter (\<lambda>p. fst p \<noteq> i) (pending w)\<rparr>;
               (res, w2) = api_settle (expiry_handler w1) (call_path c) oc w1
           in react c res w2))"

subsection \<open>Steps\<close>

text \<open>
  What the interface lets a user start: \<open>SessionBoundary\<close> starts \<open>initialize\<close> when it mounts
  and from the retry button of its error panel; the login form is on screen only without an actor
  and its submit button is disabled while \<open>busy\<close> and until both fields are filled; the sign-out
  button is part of the shell, on screen only with an actor, and disabled while \<open>busy\<close>; the
  module views, inside the shell, issue their own requests.
\<close>

definition ready :: "world \<Rightarrow> bool" where
  "ready w \<longleftrightarrow> initialized (auth w) \<and> initializationError (auth w) = []"

inductive auth_step :: "world \<Rightarrow> world \<Rightarrow> bool" where
  retry: "initialized (auth w) \<Longrightarrow> initializationError (auth w) \<noteq> [] \<Longrightarrow> auth_step w (initialize w)"
| submit_login: "ready w \<Longrightarrow> \<not> authenticated (auth w) \<Longrightarrow> \<not> busy (auth w) \<Longrightarrow>
     js_trim username \<noteq> [] \<Longrightarrow> password \<noteq> [] \<Longrightarrow> auth_step w (login username password w)"
| click_logout: "ready w \<Longrightarrow> authenticated (auth w) \<Longrightarrow> \<not> busy (auth w) \<Longrightarrow> auth_step w (logout w)"
| module_request: "ready w \<Longrightarrow> authenticated (auth w) \<Longrightarrow> auth_step w (send (CallOther p) opts w)"
| outcome: "deliver i oc w = Some (w', sig) \<Longrightarrow> auth_step w w'"

inductive auth_reachable :: "world \<Rightarrow> bool" where
  mounted: "auth_reachable (initialize world_init)"
| step: "auth_reachable w \<Longrightarrow> auth_step w w' \<Longrightarrow> auth_reachable w'"

end
