(* ===== verification/Module_Resolution.thy ===== *)
theory Module_Resolution
  imports Auth_Store
begin

section \<open>Admin modules: \<open>modules/\<close>\<close>

text \<open>
  The modules compiled into the application (\<open>selected\<close>) are matched against the descriptors the
  server sent and the grants of the session.  Icons and views are components; the model names
  them by constructors.  The result drives the routes (\<open>App.tsx\<close>) and the navigation
  (\<open>AppShell.tsx\<close>).
\<close>

datatype icon = Database | ListTodo | History

datatype module_view = RecordsView | TasksView | AuditView

record admin_module =
  mod_id :: jstr
  iconKey :: jstr
  mod_icon :: icon
  mod_view :: module_view

record resolved_module = admin_module +
  res_label :: jstr
  res_path :: jstr

definition recordsModule :: admin_module where
  "recordsModule = \<lparr>mod_id = lit ''records'', iconKey = lit ''database'', mod_icon = Database,
     mod_view = RecordsView\<rparr>"

definition tasksModule :: admin_module where
  "tasksModule = \<lparr>mod_id = lit ''tasks'', iconKey = lit ''list-todo'', mod_icon = ListTodo,
     mod_view = TasksView\<rparr>"

definition auditModule :: admin_module where
  "auditModule = \<lparr>mod_id = lit ''audit'', iconKey = lit ''history'', mod_icon = History,
     mod_view = AuditView\<rparr>"

definition selectedAdminModules :: "admin_module list" where
  "selectedAdminModules = [recordsModule]"

text \<open>\<open>new Set(ids).size !== ids.length\<close>.\<close>

definition hasDuplicateIDs :: "jstr list \<Rightarrow> bool" where
  "hasDuplicateIDs ids \<longleftrightarrow> card (set ids) \<noteq> length ids"

text \<open>\<open>new Map(entries)\<close>: a later entry replaces an earlier one with the same key.\<close>

definition available :: "admin_module list \<Rightarrow> jstr \<Rightarrow> admin_module option" where
  "available selected = map_of (rev (map (\<lambda>m. (mod_id m, m)) selected))"

definition permitted :: "jstr set \<Rightarrow> admin_descriptor \<Rightarrow> bool" where
  "permitted grants d \<longleftrightarrow>
     list_all (\<lambda>p. p \<in> grants) (case requiredPermissions d of None \<Rightarrow> [] | Some ps \<Rightarrow> ps)"

definition resolved :: "admin_module \<Rightarrow> admin_descriptor \<Rightarrow> resolved_module" where
  "resolved m d = \<lparr>mod_id = mod_id m, iconKey = iconKey m, mod_icon = mod_icon m,
     mod_view = mod_view m, res_label = desc_label d, res_path = desc_path d\<rparr>"

definition resolve_one :: "admin_module list \<Rightarrow> admin_descriptor \<Rightarrow> resolved_module list" where
  "resolve_one selected d =
     (case available selected (desc_id d) of
        None \<Rightarrow> []
      | Some m \<Rightarrow> if iconKey m = desc_icon d then [resolved m d] else [])"

definition resolveAdminModules ::
    "admin_module list \<Rightarrow> admin_descriptor list \<Rightarrow> jstr set \<Rightarrow> resolved_module list" where
  "resolveAdminModules selected descriptors grants =
     (if hasDuplicateIDs (map mod_id selected) \<or> hasDuplicateIDs (map desc_id descriptors) then []
      else concat (map (resolve_one selected) (filter (permitted grants) descriptors)))"

definition useAdminModules :: "admin_module list \<Rightarrow> auth_state \<Rightarrow> resolved_module list" where
  "useAdminModules selected a = resolveAdminModules selected (auth_modules a) (auth_grants a)"

subsection \<open>Resolution is sound, complete and ordered\<close>

lemma hasDuplicateIDs_iff: "hasDuplicateIDs ids \<longleftrightarrow> \<not> distinct ids"
  using card_distinct distinct_card by (auto simp: hasDuplicateIDs_def)

lemma available_Some_iff:
  assumes "distinct (map mod_id selected)"
  shows "available selected i = Some m \<longleftrightarrow> m \<in> set selected \<and> mod_id m = i"
proof -
  have "distinct (map fst (rev (map (\<lambda>m. (mod_id m, m)) selected)))"
    using assms by (simp add: comp_def distinct_rev flip: rev_map)
  then show ?thesis
    by (auto simp: available_def map_of_eq_Some_iff)
qed

lemma resolve_one_set:
  assumes "distinct (map mod_id selected)"
  shows "set (resolve_one selected d) =
    {resolved m d | m. m \<in> set selected \<and> mod_id m = desc_id d \<and> iconKey m = desc_icon d}"
proof (cases "available selected (desc_id d)")
  case None
  then show ?thesis
    using available_Some_iff [OF assms, of "desc_id d"] by (auto simp: resolve_one_def)
next
  case (Some m)
  then have "m' \<in> set selected \<and> mod_id m' = desc_id d \<and> iconKey m' = desc_icon d \<longleftrightarrow>
      m' = m \<and> iconKey m = desc_icon d" for m'
    using available_Some_iff [OF assms, of "desc_id d"] by (metis option.inject)
  with Some show ?thesis
    by (simp add: resolve_one_def)
qed

lemma permitted_iff:
  "permitted grants d \<longleftrightarrow> (case requiredPermissions d of None \<Rightarrow> True | Some ps \<Rightarrow> set ps \<subseteq> grants)"
  by (auto simp: permitted_def list_all_iff split: option.splits)

lemma map_resolve_one:
  assumes "distinct (map mod_id selected)"
  shows "map mod_id (resolve_one selected d) \<in> {[], [desc_id d]}"
  using available_Some_iff [OF assms, of "desc_id d"]
  by (auto simp: resolve_one_def resolved_def split: option.splits)

lemma resolve_set:
  "set (resolveAdminModules selected descriptors grants) =
     {resolved m d | m d. distinct (map mod_id selected) \<and> distinct (map desc_id descriptors) \<and>
        m \<in> set selected \<and> d \<in> set descriptors \<and> mod_id m = desc_id d \<and> iconKey m = desc_icon d \<and>
        (case requiredPermissions d of None \<Rightarrow> True | Some ps \<Rightarrow> set ps \<subseteq> grants)}"
proof (cases "distinct (map mod_id selected) \<and> distinct (map desc_id descriptors)")
  case True
  then have "set (resolveAdminModules selected descriptors grants) =
      (\<Union>d \<in> {d \<in> set descriptors. permitted grants d}. set (resolve_one selected d))"
    by (simp add: resolveAdminModules_def hasDuplicateIDs_iff)
  also have "\<dots> = {resolved m d | m d. d \<in> set descriptors \<and> permitted grants d \<and>
      m \<in> set selected \<and> mod_id m = desc_id d \<and> iconKey m = desc_icon d}"
    using True by (auto simp: resolve_one_set)
  finally show ?thesis
    using True by (auto simp: permitted_iff)
next
  case False
  then show ?thesis by (auto simp: resolveAdminModules_def hasDuplicateIDs_iff)
qed

text \<open>
  C8.  Resolution fails closed and is exact.  When the compiled modules and the server's
  descriptors have distinct ids, a module is offered if and only if some descriptor names its id
  and its icon and all permissions the descriptor requires are granted, with the label and the
  path of that descriptor; when either list has duplicate ids nothing is offered.
\<close>

theorem resolve_exact:
  "set (resolveAdminModules selected descriptors grants) =
     {resolved m d | m d. distinct (map mod_id selected) \<and> distinct (map desc_id descriptors) \<and>
        m \<in> set selected \<and> d \<in> set descriptors \<and> mod_id m = desc_id d \<and> iconKey m = desc_icon d \<and>
        (case requiredPermissions d of None \<Rightarrow> True | Some ps \<Rightarrow> set ps \<subseteq> grants)}"
  by (rule resolve_set)

lemma subseq_concat_single:
  assumes "\<And>x. f x \<in> {[], [g x]}"
  shows "subseq (concat (map f xs)) (map g xs)"
proof (induction xs)
  case (Cons x xs)
  then show ?case using assms [of x] by auto
qed simp

lemma resolve_order:
  "subseq (map mod_id (resolveAdminModules selected descriptors grants)) (map desc_id descriptors) \<and>
   distinct (map mod_id (resolveAdminModules selected descriptors grants))"
proof (cases "distinct (map mod_id selected) \<and> distinct (map desc_id descriptors)")
  case True
  let ?ds = "filter (permitted grants) descriptors"
  have "subseq (concat (map (\<lambda>d. map mod_id (resolve_one selected d)) ?ds)) (map desc_id ?ds)"
    using True by (intro subseq_concat_single map_resolve_one) simp
  then have "subseq (map mod_id (resolveAdminModules selected descriptors grants)) (map desc_id ?ds)"
    using True by (simp add: resolveAdminModules_def hasDuplicateIDs_iff map_concat comp_def)
  also have "subseq \<dots> (map desc_id descriptors)"
    by (intro subseq_map subseq_filter_left)
  finally show ?thesis
    using True by (metis distinct_subseq)
next
  case False
  then show ?thesis by (auto simp: resolveAdminModules_def hasDuplicateIDs_iff)
qed

text \<open>
  The offered modules keep the server's order and are pairwise distinct, so they give
  distinct React keys and a well-defined first module for the index route.
\<close>

lemma resolve_ordered_distinct:
  "subseq (map mod_id (resolveAdminModules selected descriptors grants)) (map desc_id descriptors) \<and>
   distinct (map mod_id (resolveAdminModules selected descriptors grants))"
  by (rule resolve_order)

end
