(* ===== verification/Component_Tree.thy ===== *)
theory Component_Tree
  imports Admin_Parts Module_Resolution
begin

section \<open>The component tree: \<open>App.tsx\<close>, \<open>main.tsx\<close> and the providers\<close>

text \<open>
  The stores and the router reach the components through React contexts: a provider makes its value
  available to the components below it, and a hook used elsewhere raises an error, which takes the
  whole page down.  The tree has, for every component, the contexts its hooks ask for, the context
  it provides to its children, if any, and its children; a route element has the children of all
  routes below it, so that one tree stands for every screen.  \<open>BrowserRouter\<close> of \<open>react-router\<close>
  provides the router context, and \<open>Routes\<close>, \<open>Navigate\<close>, \<open>Outlet\<close>, \<open>NavLink\<close>, \<open>useLocation\<close> and
  \<open>useNavigate\<close> ask for it; the text of the error they raise outside a router is a parameter.
\<close>

datatype react_context = AppContext | AuthContext | ToastContext | RecordsContext | RouterContext

datatype ui = Ui "react_context list" "react_context option" "ui list"

subsection \<open>The components\<close>

text \<open>The parts of \<open>react-router\<close> the tree uses.\<close>

definition BrowserRouter :: "ui list \<Rightarrow> ui" where
  "BrowserRouter children = Ui [] (Some RouterContext) children"

definition Routes_ui :: "ui list \<Rightarrow> ui" where
  "Routes_ui children = Ui [RouterContext] None children"

definition Navigate_ui :: ui where
  "Navigate_ui = Ui [RouterContext] None []"

definition Outlet_ui :: "ui list \<Rightarrow> ui" where
  "Outlet_ui children = Ui [RouterContext] None children"

definition NavLink_ui :: ui where
  "NavLink_ui = Ui [RouterContext] None []"

text \<open>The components of the application.\<close>

definition AppProvider :: "ui list \<Rightarrow> ui" where
  "AppProvider children = Ui [] (Some AppContext) children"

definition AuthProvider :: "ui list \<Rightarrow> ui" where
  "AuthProvider children = Ui [AppContext] (Some AuthContext) children"

definition ToastProvider :: "ui list \<Rightarrow> ui" where
  "ToastProvider children = Ui [] (Some ToastContext) children"

definition RecordsProvider :: "ui list \<Rightarrow> ui" where
  "RecordsProvider children = Ui [] (Some RecordsContext) children"

definition ToastRegion_ui :: ui where
  "ToastRegion_ui = Ui [ToastContext] None []"

definition RecordsWorkspace_ui :: ui where
  "RecordsWorkspace_ui = Ui [RecordsContext, ToastContext, AuthContext] None []"

definition RecordsView_ui :: ui where
  "RecordsView_ui = RecordsProvider [RecordsWorkspace_ui]"

fun module_ui :: "module_view \<Rightarrow> ui" where
  "module_ui RecordsView = RecordsView_ui"
| "module_ui TasksView = Ui [] None []"
| "module_ui AuditView = Ui [] None []"

text \<open>\<open>useAdminModules\<close> uses \<open>useAuth\<close>.\<close>

definition AppShell_ui :: "resolved_module list \<Rightarrow> ui list \<Rightarrow> ui" where
  "AppShell_ui ms outlet =
     Ui [AppContext, AuthContext, ToastContext, AuthContext, RouterContext] None
       (map (\<lambda>m. NavLink_ui) ms @ [Outlet_ui outlet])"

definition LoginView_ui :: "bool \<Rightarrow> ui" where
  "LoginView_ui oidc =
     (if oidc then Ui [AppContext] None [] else Ui [AppContext, AuthContext, RouterContext, RouterContext] None [])"

definition LoginRoute_ui :: "bool \<Rightarrow> ui" where
  "LoginRoute_ui oidc = Ui [AuthContext] None [Navigate_ui, LoginView_ui oidc]"

definition RequireAuth_ui :: "ui list \<Rightarrow> ui" where
  "RequireAuth_ui outlet = Ui [AuthContext, RouterContext] None [Navigate_ui, Outlet_ui outlet]"

definition SessionBoundary_ui :: "ui list \<Rightarrow> ui" where
  "SessionBoundary_ui outlet = Ui [AuthContext] None [Outlet_ui outlet]"

definition NoAvailableModules_ui :: ui where
  "NoAvailableModules_ui = Ui [] None []"

definition AdminRoutes_ui :: "bool \<Rightarrow> resolved_module list \<Rightarrow> ui" where
  "AdminRoutes_ui oidc ms =
     Ui [AuthContext] None
       [Routes_ui
          [SessionBoundary_ui
             [LoginRoute_ui oidc,
              RequireAuth_ui
                [AppShell_ui ms
                   ((if ms = [] then NoAvailableModules_ui else Navigate_ui) # map (\<lambda>m. module_ui (mod_view m)) ms)],
              Navigate_ui]]]"

definition AdminApp :: "ui \<Rightarrow> ui" where
  "AdminApp router = AppProvider [AuthProvider [ToastProvider [router, ToastRegion_ui]]]"

definition App :: "bool \<Rightarrow> resolved_module list \<Rightarrow> ui" where
  "App oidc ms = AdminApp (BrowserRouter [AdminRoutes_ui oidc ms])"

text \<open>The entry point: the application is rendered into the root element, or the script raises an
  error when the page has none.\<close>

definition main_render :: "bool \<Rightarrow> resolved_module list \<Rightarrow> 'e option \<Rightarrow> jstr + ('e \<times> ui)" where
  "main_render oidc ms root =
     (case main_root root of Inl e \<Rightarrow> Inl e | Inr r \<Rightarrow> Inr (r, Ui [] None [App oidc ms]))"

subsection \<open>Hooks and their errors\<close>

text \<open>What a hook finds, given the contexts the components above provide; \<open>no_router\<close> is the text of
  the router's own error.\<close>

definition provided :: "react_context list \<Rightarrow> react_context \<Rightarrow> unit option" where
  "provided \<Gamma> c = (if c \<in> set \<Gamma> then Some () else None)"

fun use_context :: "string \<Rightarrow> react_context list \<Rightarrow> react_context \<Rightarrow> jstr + unit" where
  "use_context no_router \<Gamma> AppContext = useApp (provided \<Gamma> AppContext)"
| "use_context no_router \<Gamma> AuthContext = useAuth (provided \<Gamma> AuthContext)"
| "use_context no_router \<Gamma> ToastContext = useToast (provided \<Gamma> ToastContext)"
| "use_context no_router \<Gamma> RecordsContext = useRecords (provided \<Gamma> RecordsContext)"
| "use_context no_router \<Gamma> RouterContext = require_context no_router (provided \<Gamma> RouterContext)"

definition below :: "react_context option \<Rightarrow> react_context list \<Rightarrow> react_context list" where
  "below p \<Gamma> = (case p of None \<Rightarrow> \<Gamma> | Some c \<Rightarrow> c # \<Gamma>)"

fun hook_errors :: "string \<Rightarrow> react_context list \<Rightarrow> ui \<Rightarrow> jstr list" where
  "hook_errors no_router \<Gamma> (Ui hooks p children) =
     concat (map (\<lambda>c. case use_context no_router \<Gamma> c of Inl e \<Rightarrow> [e] | Inr _ \<Rightarrow> []) hooks) @
     concat (map (hook_errors no_router (below p \<Gamma>)) children)"

subsection \<open>What a tree needs from above\<close>

text \<open>The contexts a tree asks for and does not provide itself: the free variables of the tree, with
  the providers as its binders.\<close>

fun needs :: "ui \<Rightarrow> react_context set" where
  "needs (Ui hooks p children) = set hooks \<union> ((\<Union>t \<in> set children. needs t) - set_option p)"

lemma use_context_found:
  "(case use_context no_router \<Gamma> c of Inl e \<Rightarrow> [e] | Inr _ \<Rightarrow> []) = [] \<longleftrightarrow> c \<in> set \<Gamma>"
  by (cases c) (simp_all add: useApp_def useAuth_def useToast_def useRecords_def require_context_def provided_def)

lemma set_below: "set (below p \<Gamma>) = set_option p \<union> set \<Gamma>"
  by (cases p) (simp_all add: below_def)

text \<open>A tree renders without an error exactly where everything it needs is provided.\<close>

lemma hook_errors_needs: "hook_errors no_router \<Gamma> t = [] \<longleftrightarrow> needs t \<subseteq> set \<Gamma>"
  by (induction no_router \<Gamma> t rule: hook_errors.induct) (auto simp: use_context_found set_below)

lemma needs_AdminApp: "needs (AdminApp router) = needs router - {AppContext, AuthContext, ToastContext}"
  by (auto simp: AdminApp_def AppProvider_def AuthProvider_def ToastProvider_def ToastRegion_ui_def)

lemma needs_module: "needs (module_ui v) \<subseteq> {ToastContext, AuthContext}"
  by (cases v) (simp_all add: RecordsView_ui_def RecordsProvider_def RecordsWorkspace_ui_def)

lemma needs_AdminRoutes:
  "needs (AdminRoutes_ui oidc ms) = {AppContext, AuthContext, ToastContext, RouterContext}"
  by (auto simp: AdminRoutes_ui_def Routes_ui_def SessionBoundary_ui_def LoginRoute_ui_def LoginView_ui_def
      RequireAuth_ui_def AppShell_ui_def NoAvailableModules_ui_def Navigate_ui_def Outlet_ui_def NavLink_ui_def
      dest: needs_module [THEN subsetD] split: if_splits)

text \<open>
  C21.  No component can crash for want of a provider.  In the tree that the entry point renders, for
  either login variant and whatever modules are offered, every hook of every component, on every
  screen, finds the context it asks for.  The providers are exactly what that takes: \<open>AdminApp\<close> around
  any router element renders without an error if and only if that element needs no more than the
  metadata, the session and the notifications, and the routes need all three and a router, so without
  the router the page is lost, and a single provider of \<open>AdminApp\<close> or the router taken away from
  the contexts around the routes gives an error.
\<close>

theorem contexts_found:
  "(\<exists>t. main_render oidc ms (Some root) = Inr (root, t) \<and> hook_errors no_router [] t = []) \<and>
   (hook_errors no_router [] (AdminApp router) = [] \<longleftrightarrow> needs router \<subseteq> {AppContext, AuthContext, ToastContext}) \<and>
   hook_errors no_router [] (AdminApp (AdminRoutes_ui oidc ms)) \<noteq> [] \<and>
   (hook_errors no_router \<Gamma> (AdminRoutes_ui oidc ms) = [] \<longleftrightarrow>
      {AppContext, AuthContext, ToastContext, RouterContext} \<subseteq> set \<Gamma>)"
proof -
  have "main_render oidc ms (Some root) = Inr (root, Ui [] None [App oidc ms])"
    by (simp add: main_render_def main_root_def require_context_def)
  moreover have "needs (Ui [] None [App oidc ms]) = {}"
    by (simp add: App_def needs_AdminApp BrowserRouter_def needs_AdminRoutes) blast
  ultimately show ?thesis
    by (auto simp: hook_errors_needs needs_AdminApp needs_AdminRoutes simp del: hook_errors.simps needs.simps)
qed

end
