(* ===== verification/Auth_Invariants.thy ===== *)
theory Auth_Invariants
  imports Auth_Store
begin

section \<open>Invariants of the session store\<close>

text \<open>
  The invariant relates the provider's flags to the requests in flight.  It is stated over a bag
  of calls so that the reaction to an outcome can be treated in two halves: the call is taken out
  of the queue but still counted, then the reaction consumes it.
\<close>

fun is_op :: "call \<Rightarrow> bool" where
  "is_op CallLogin = True"
| "is_op (CallLoginContext _) = True"
| "is_op CallLogout = True"
| "is_op _ = False"

fun is_login :: "call \<Rightarrow> bool" where
  "is_login CallLogin = True"
| "is_login (CallLoginContext _) = True"
| "is_login _ = False"

fun is_ctx :: "call \<Rightarrow> bool" where
  "is_ctx (CallInitContext _ _) = True"
| "is_ctx _ = False"

definition bag :: "world \<Rightarrow> call multiset" where
  "bag w = mset (map (fst \<circ> snd) (pending w))"

definition meta_ok :: "call multiset \<Rightarrow> world \<Rightarrow> bool" where
  "meta_ok B w \<longleftrightarrow> count B CallMeta = (if app_promise (app w) = PendingPromise then 1 else 0)"

definition op_ok :: "call multiset \<Rightarrow> world \<Rightarrow> bool" where
  "op_ok B w \<longleftrightarrow> size (filter_mset is_op B) = (if busy (auth w) then 1 else 0)"

definition fresh_ok :: "call multiset \<Rightarrow> world \<Rightarrow> bool" where
  "fresh_ok B w \<longleftrightarrow> (\<forall>j. CallSession j \<in># B \<longrightarrow> j < next_call w)"

definition awaited_context :: "init_run \<Rightarrow> call multiset" where
  "awaited_context r =
     (case answer r of
        Some (Some s) \<Rightarrow> if meta_ready r then {#CallInitContext (run_id r) s#} else {#}
      | _ \<Rightarrow> {#})"

definition run_ok :: "call multiset \<Rightarrow> world \<Rightarrow> bool" where
  "run_ok B w \<longleftrightarrow>
     (case init_run w of
        None \<Rightarrow> initialized (auth w) \<and> filter_mset is_ctx B = {#}
      | Some r \<Rightarrow>
          \<not> initialized (auth w) \<and> initializationError (auth w) = [] \<and> \<not> busy (auth w) \<and>
          \<not> authenticated (auth w) \<and> run_id r < next_call w \<and>
          app_promise (app w) = (if meta_ready r then FulfilledPromise else PendingPromise) \<and>
          count B (CallSession (run_id r)) = (if answer r = None then 1 else 0) \<and>
          filter_mset is_ctx B = awaited_context r \<and>
          \<not> (meta_ready r \<and> answer r = Some None))"

definition error_ok :: "world \<Rightarrow> bool" where
  "error_ok w \<longleftrightarrow>
     (initializationError (auth w) \<noteq> [] \<longrightarrow> \<not> authenticated (auth w) \<and> \<not> busy (auth w) \<and> init_run w = None)"

definition cleared_ok :: "world \<Rightarrow> bool" where
  "cleared_ok w \<longleftrightarrow>
     (\<not> authenticated (auth w) \<longrightarrow> auth_modules (auth w) = [] \<and> auth_grants (auth w) = {})"

definition inv :: "call multiset \<Rightarrow> world \<Rightarrow> bool" where
  "inv B w \<longleftrightarrow> meta_ok B w \<and> op_ok B w \<and> fresh_ok B w \<and> run_ok B w \<and> error_ok w \<and> cleared_ok w"

definition ids_ok :: "world \<Rightarrow> bool" where
  "ids_ok w \<longleftrightarrow> distinct (map fst (pending w)) \<and> (\<forall>p \<in> set (pending w). fst p < next_call w)"

lemmas inv_defs = inv_def meta_ok_def op_ok_def fresh_ok_def run_ok_def error_ok_def cleared_ok_def
  awaited_context_def authenticated_def

subsection \<open>Sending and expiring\<close>

lemma bag_send [simp]: "bag (send c opts w) = add_mset c (bag w)"
  by (simp add: bag_def send_def)

lemma send_fields [simp]:
  "app (send c opts w) = app w" "auth (send c opts w) = auth w"
  "init_run (send c opts w) = init_run w" "csrfToken (send c opts w) = csrfToken w"
  "next_call (send c opts w) = Suc (next_call w)" "handler_on (send c opts w) = handler_on w"
  by (simp_all add: send_def)

lemma bag_frame [simp]:
  "bag (w\<lparr>auth := a\<rparr>) = bag w" "bag (w\<lparr>app := p\<rparr>) = bag w" "bag (w\<lparr>csrfToken := t\<rparr>) = bag w"
  "bag (w\<lparr>init_run := r\<rparr>) = bag w"
  by (simp_all add: bag_def)

lemma bag_handlers [simp]:
  "bag (expire w) = bag w" "bag (set_busy b w) = bag w" "bag (accept_fail w) = bag w"
  "bag (accept_done s ctx w) = bag w" "bag (init_finish i w) = bag w" "bag (init_fail i c w) = bag w"
  by (simp_all add: expire_def set_busy_def accept_fail_def accept_done_def init_finish_def
      init_fail_def Let_def)

lemma inv_expire: "inv B w \<Longrightarrow> inv B (expire w)"
  by (auto simp: inv_defs expire_def split: option.splits)

lemma inv_csrf [simp]: "inv B (w\<lparr>csrfToken := t\<rparr>) = inv B w"
  by (cases "init_run w") (simp_all add: inv_defs)

lemma inv_accept_fail [simp]: "inv B (accept_fail w) = inv B w"
  by (simp add: accept_fail_def)

lemma inv_other: "inv B w \<Longrightarrow> inv (add_mset (CallOther p) B) w"
  by (auto simp: inv_defs split: option.splits)

lemma inv_other_D: "inv (add_mset (CallOther p) B) w \<Longrightarrow> inv B w"
  by (auto simp: inv_defs split: option.splits)

lemma inv_pending [simp]: "inv B (w\<lparr>pending := ps, next_call := Suc (next_call w)\<rparr>) =
    inv B (w\<lparr>next_call := Suc (next_call w)\<rparr>)"
  by (cases "init_run w") (simp_all add: inv_defs)

lemma inv_next: "inv B w \<Longrightarrow> inv B (w\<lparr>next_call := Suc (next_call w)\<rparr>)"
  by (auto simp: inv_defs less_SucI split: option.splits)

lemma inv_send: "inv B w \<Longrightarrow> inv B (send c opts w)"
  by (simp add: send_def inv_next)

subsection \<open>Each callback keeps the invariant\<close>

lemma inv_initialize_fresh:
  assumes "init_run w = None" "\<not> authenticated (auth w)" "\<not> busy (auth w)"
    and "meta_ok (bag w) w" "op_ok (bag w) w" "fresh_ok (bag w) w" "cleared_ok w"
    and "filter_mset is_ctx (bag w) = {#}"
  shows "inv (bag (initialize w)) (initialize w)"
proof -
  have "count (bag w) (CallSession j) = 0" if "next_call w \<le> j" for j
    using assms(6) that by (auto simp: fresh_ok_def count_eq_zero_iff)
  moreover have "app_promise (snd (app_load (app w))) = PendingPromise" if "app_promise (app w) = NoPromise"
    using that by (simp add: app_load_promise)
  ultimately show ?thesis
    using assms
    by (cases "app_promise (app w)")
      (auto simp: initialize_def app_load_def inv_defs Let_def less_Suc_eq intro: less_SucI)
qed

lemma inv_login:
  assumes "inv (bag w) w" "ready w" "\<not> authenticated (auth w)" "\<not> busy (auth w)"
  shows "inv (bag (login u p w)) (login u p w)"
  using assms by (auto simp: login_def inv_defs ready_def set_busy_def less_Suc_eq split: option.splits)

lemma inv_logout:
  assumes "inv (bag w) w" "ready w" "authenticated (auth w)" "\<not> busy (auth w)"
  shows "inv (bag (logout w)) (logout w)"
  using assms by (auto simp: logout_def inv_defs ready_def set_busy_def less_Suc_eq split: option.splits)

subsection \<open>Each reaction keeps the invariant\<close>

text \<open>What must hold of the rest of the world when a run of \<open>initialize\<close> ends.\<close>

definition endable :: "nat \<Rightarrow> call multiset \<Rightarrow> world \<Rightarrow> bool" where
  "endable i B w \<longleftrightarrow>
     (\<exists>r. init_run w = Some r \<and> run_id r = i) \<and> meta_ok B w \<and> op_ok B w \<and> fresh_ok B w \<and>
     cleared_ok w \<and> \<not> busy (auth w) \<and> initializationError (auth w) = [] \<and>
     filter_mset is_ctx B = {#}"

lemma inv_init_finish: "endable i B w \<Longrightarrow> inv B (init_finish i w)"
  by (auto simp: endable_def init_finish_def inv_defs)

lemma inv_init_fail: "endable i B w \<Longrightarrow> inv B (init_fail i c w)"
  by (auto simp: endable_def init_fail_def init_finish_def expire_def inv_defs Let_def)

lemma bag_init_advance:
  "bag (init_advance r w) = bag w + (if meta_ready r then awaited_context r else {#})"
  by (auto simp: init_advance_def awaited_context_def accept_start_def Let_def split: option.splits)

lemma inv_init_advance:
  assumes "endable (run_id r) (bag w) w" "\<not> initialized (auth w)" "\<not> authenticated (auth w)"
    and "run_id r < next_call w"
    and "app_promise (app w) = (if meta_ready r then FulfilledPromise else PendingPromise)"
    and "count (bag w) (CallSession (run_id r)) = (if answer r = None then 1 else 0)"
  shows "inv (bag (init_advance r w)) (init_advance r w)"
proof -
  consider (wait) "\<not> meta_ready r \<or> answer r = None" | (none) "meta_ready r" "answer r = Some None"
    | (accept) s where "meta_ready r" "answer r = Some (Some s)"
    by (cases "answer r") auto
  then show ?thesis
  proof cases
    case wait
    then show ?thesis
      using assms by (auto simp: init_advance_def endable_def inv_defs Let_def split: option.splits)
  next
    case none
    have "endable (run_id r) (bag w) (w\<lparr>init_run := Some r\<rparr>)"
      using assms(1) by (auto simp: endable_def inv_defs)
    with none show ?thesis
      by (simp add: init_advance_def inv_init_finish)
  next
    case accept
    then show ?thesis
      using assms
      by (auto simp: init_advance_def endable_def inv_defs accept_start_def Let_def less_SucI)
  qed
qed

lemma endable_meta:
  assumes "inv (add_mset CallMeta (bag w)) w" "init_run w = Some r" "\<not> meta_ready r" "count (bag w) CallMeta = 0"
    and "app_promise a = (case out of Inl _ \<Rightarrow> NoPromise | Inr _ \<Rightarrow> FulfilledPromise)"
  shows "endable (run_id r) (bag w) (w\<lparr>app := a\<rparr>)"
proof -
  have "op_ok (bag w) (w\<lparr>app := a\<rparr>)" "fresh_ok (bag w) (w\<lparr>app := a\<rparr>)" "cleared_ok (w\<lparr>app := a\<rparr>)"
    using assms by (simp_all add: inv_def op_ok_def fresh_ok_def cleared_ok_def)
  moreover have "meta_ok (bag w) (w\<lparr>app := a\<rparr>)"
    using assms(4,5) by (simp add: meta_ok_def split: sum.splits)
  moreover have "filter_mset is_ctx (bag w) = awaited_context r" "\<not> busy (auth w)" "initializationError (auth w) = []"
    using assms(1,2) by (simp_all add: inv_def run_ok_def)
  ultimately show ?thesis
    using assms(2,3) by (simp add: endable_def awaited_context_def split: option.splits)
qed

lemma inv_settle_meta:
  assumes "inv (add_mset CallMeta (bag w)) w"
  shows "inv (bag (settle_meta res w)) (settle_meta res w)"
proof -
  obtain out a where st: "app_settle res (app w) = (out, a)" by fastforce
  then have a: "app_promise a = (case out of Inl _ \<Rightarrow> NoPromise | Inr _ \<Rightarrow> FulfilledPromise)"
    using app_settle_promise [of res "app w"] by simp
  have p: "app_promise (app w) = PendingPromise" and no: "count (bag w) CallMeta = 0"
    using assms by (auto simp: inv_def meta_ok_def split: if_splits)
  show ?thesis
  proof (cases "init_run w")
    case None
    with assms st a no show ?thesis
      by (auto simp: settle_meta_def inv_defs split: sum.splits)
  next
    case (Some r)
    then have nr: "\<not> meta_ready r"
      using assms p by (auto simp: inv_def run_ok_def)
    note e = endable_meta [OF assms Some nr no a]
    show ?thesis
    proof (cases out)
      case (Inl c)
      with st Some nr e show ?thesis by (simp add: settle_meta_def inv_init_fail)
    next
      case (Inr u)
      have "inv (bag (init_advance (r\<lparr>meta_ready := True\<rparr>) (w\<lparr>app := a\<rparr>)))
          (init_advance (r\<lparr>meta_ready := True\<rparr>) (w\<lparr>app := a\<rparr>))"
        by (rule inv_init_advance)
          (use assms Some nr a e Inr in \<open>auto simp: inv_def run_ok_def\<close>)
      with st Some nr Inr show ?thesis by (simp add: settle_meta_def)
    qed
  qed
qed

lemma inv_settle_session:
  assumes "inv (add_mset (CallSession i) (bag w)) w" "settle_session i res w = Some w'"
  shows "inv (bag w') w'"
proof (cases "init_run w")
  case None
  with assms show ?thesis by (auto simp: settle_session_def inv_defs)
next
  case (Some r)
  show ?thesis
  proof (cases "run_id r \<noteq> i \<or> answer r \<noteq> None")
    case True
    with assms Some show ?thesis
      by (auto simp: settle_session_def inv_defs split: if_splits option.splits)
  next
    case False
    have e: "endable i (bag w) w"
      using assms(1) Some False by (auto simp: endable_def inv_defs)
    have adv: "inv (bag (init_advance (r\<lparr>answer := Some a\<rparr>) w)) (init_advance (r\<lparr>answer := Some a\<rparr>) w)" for a
      by (rule inv_init_advance)
        (use assms(1) Some False e in \<open>auto simp: inv_def run_ok_def\<close>)
    show ?thesis
      using assms(2) Some False e adv inv_init_fail
      by (auto simp: settle_session_def split: sum.splits cause.splits if_splits)
  qed
qed

lemma inv_settle_init_context:
  assumes "inv (add_mset (CallInitContext i s) (bag w)) w" "settle_init_context i s res w = Some w'"
  shows "inv (bag w') w'"
proof -
  obtain r where r: "init_run w = Some r" "run_id r = i" "filter_mset is_ctx (bag w) = {#}"
    using assms(1) by (auto simp: inv_defs split: option.splits if_splits)
  have "endable i (bag w) (accept_fail w)" "endable i (bag w) (accept_done s ctx w)" for ctx
    using assms(1) r by (auto simp: endable_def inv_defs accept_fail_def accept_done_def)
  with assms(2) show ?thesis
    by (auto simp: settle_init_context_def inv_init_fail inv_init_finish split: sum.splits)
qed

text \<open>While an operation is in flight no run of \<open>initialize\<close> is.\<close>

lemma inv_op_no_run:
  assumes "inv (add_mset c B) w" "is_op c"
  shows "busy (auth w)" "init_run w = None" "initializationError (auth w) = []"
    "filter_mset is_op B = {#}"
  using assms by (auto simp: inv_defs split: if_splits option.splits)

lemma inv_op_done:
  assumes "inv (add_mset c B) w" "is_op c"
  shows "inv B (set_busy False w)"
  using assms inv_op_no_run [OF assms]
  by (cases c) (auto simp: inv_defs set_busy_def)

lemma inv_op_next:
  assumes "inv (add_mset c B) w" "is_op c" "is_op d"
  shows "inv (add_mset d B) w"
  using assms inv_op_no_run [OF assms(1,2)]
  by (cases c; cases d) (auto simp: inv_defs)

lemma inv_accept_done:
  assumes "inv B w" "init_run w = None" "initializationError (auth w) = []"
  shows "inv B (accept_done s ctx w)"
  using assms by (auto simp: inv_defs accept_done_def)

lemma inv_settle_login:
  assumes "inv (add_mset CallLogin (bag w)) w" "settle_login res w = Some (w', sig)"
  shows "inv (bag w') w'"
proof -
  have "inv (add_mset (CallLoginContext s) (bag w)) (accept_start s (CallLoginContext s) w)" for s
    using inv_op_next [OF assms(1), of "CallLoginContext s"] by (simp add: accept_start_def inv_send)
  with assms inv_op_done [OF assms(1)] show ?thesis
    by (auto simp: settle_login_def accept_start_def split: sum.splits)
qed

lemma inv_settle_login_context:
  assumes "inv (add_mset (CallLoginContext s) (bag w)) w" "settle_login_context s res w = Some (w', sig)"
  shows "inv (bag w') w'"
proof -
  note n = inv_op_no_run [OF assms(1)]
  have "inv (bag w) (set_busy False (accept_done s ctx w))" for ctx
    using inv_op_done [OF inv_accept_done [OF assms(1)]] n by simp
  moreover have "inv (bag w) (set_busy False (accept_fail w))"
    using inv_op_done [of "CallLoginContext s" "bag w" "accept_fail w"] assms(1) by simp
  ultimately show ?thesis
    using assms(2) by (auto simp: settle_login_context_def split: sum.splits)
qed

lemma inv_settle_logout:
  assumes "inv (add_mset CallLogout (bag w)) w" "settle_logout res w = (w', sig)"
  shows "inv (bag w') w'"
  using assms inv_op_done [OF assms(1)] inv_op_done [OF inv_expire [OF assms(1)]]
  by (auto simp: settle_logout_def split: sum.splits)

lemma inv_react:
  assumes "inv (add_mset c (bag w)) w" "react c res w = Some (w', sig)"
  shows "inv (bag w') w'"
  using assms
  by (cases c)
    (auto intro: inv_settle_meta inv_settle_session inv_settle_init_context inv_settle_login
      inv_settle_login_context inv_settle_logout inv_other_D)

subsection \<open>Identities of requests in flight\<close>

lemma ids_ok_send: "ids_ok w \<Longrightarrow> ids_ok (send c opts w)"
  by (force simp: ids_ok_def send_def less_SucI)

lemma ids_ok_frame [simp]:
  "ids_ok (w\<lparr>auth := a\<rparr>) = ids_ok w" "ids_ok (w\<lparr>app := p\<rparr>) = ids_ok w"
  "ids_ok (w\<lparr>csrfToken := t\<rparr>) = ids_ok w" "ids_ok (w\<lparr>init_run := r\<rparr>) = ids_ok w"
  by (simp_all add: ids_ok_def)

lemma ids_ok_handlers [simp]:
  "ids_ok (expire w) = ids_ok w" "ids_ok (set_busy b w) = ids_ok w"
  "ids_ok (accept_fail w) = ids_ok w" "ids_ok (accept_done s ctx w) = ids_ok w"
  "ids_ok (init_finish i w) = ids_ok w" "ids_ok (init_fail i c w) = ids_ok w"
  by (simp_all add: ids_ok_def expire_def set_busy_def accept_fail_def accept_done_def
      init_finish_def init_fail_def Let_def)

lemma ids_ok_init_advance: "ids_ok w \<Longrightarrow> ids_ok (init_advance r w)"
  by (auto simp: init_advance_def accept_start_def Let_def intro: ids_ok_send split: option.splits)

lemma ids_ok_react: "ids_ok w \<Longrightarrow> react c res w = Some (w', sig) \<Longrightarrow> ids_ok w'"
  by (cases c)
    (auto simp: settle_meta_def settle_session_def settle_init_context_def settle_login_def
      settle_login_context_def settle_logout_def accept_start_def Let_def ids_ok_send
      intro: ids_ok_init_advance
      split: sum.splits cause.splits option.splits if_splits prod.splits)

lemma ids_ok_initialize: "ids_ok w \<Longrightarrow> ids_ok (initialize w)"
  by (auto simp: initialize_def ids_ok_send Let_def split: option.splits prod.splits)

text \<open>What delivering an outcome does, in terms of the reaction it triggers.\<close>

lemma deliver_cases:
  assumes "deliver i oc w = Some (w', sig)" "ids_ok w"
  obtains c rq res w1 where "map_of (pending w) i = Some (c, rq)"
    "bag w = add_mset c (bag w1)" "ids_ok w1" "react c res w1 = Some (w', sig)"
    "w1 = w\<lparr>pending := filter (\<lambda>p. fst p \<noteq> i) (pending w)\<rparr> \<or>
     w1 = expire (w\<lparr>pending := filter (\<lambda>p. fst p \<noteq> i) (pending w)\<rparr>)"
    "fst (api_settle (expiry_handler w) (call_path c) oc w) = res"
proof -
  from assms(1) obtain c rq where m: "map_of (pending w) i = Some (c, rq)"
    by (auto simp: deliver_def split: option.splits)
  define w0 where "w0 = w\<lparr>pending := filter (\<lambda>p. fst p \<noteq> i) (pending w)\<rparr>"
  define res w1 where "res = fst (api_settle (expiry_handler w0) (call_path c) oc w0)"
    "w1 = snd (api_settle (expiry_handler w0) (call_path c) oc w0)"
  have "react c res w1 = Some (w', sig)"
    using assms(1) m by (simp add: deliver_def w0_def res_w1_def Let_def case_prod_beta)
  moreover have w1: "w1 = w0 \<or> w1 = expire w0"
    unfolding res_w1_def api_settle_def expiry_handler_def run_handler_def
    by (auto split: fetch_outcome.splits cause.splits)
  moreover have "bag w = add_mset c (bag w0)"
    using arg_cong [OF mset_remove_key [OF _ m], of "image_mset (fst \<circ> snd)"] assms(2)
    by (simp add: bag_def w0_def ids_ok_def)
  moreover have "ids_ok w0"
    using assms(2) by (auto simp: ids_ok_def w0_def distinct_map_filter)
  moreover have "fst (api_settle (expiry_handler w) (call_path c) oc w) = res"
    by (auto simp: res_w1_def api_settle_def split: fetch_outcome.splits cause.splits)
  ultimately show ?thesis
    using m that [of c rq w1 res] by (auto simp: w0_def)
qed

lemma inv_pending_frame [simp]: "inv B (w\<lparr>pending := ps\<rparr>) = inv B w"
  by (cases "init_run w") (simp_all add: inv_defs)

lemma inv_deliver:
  assumes "inv (bag w) w" "ids_ok w" "deliver i oc w = Some (w', sig)"
  shows "inv (bag w') w' \<and> ids_ok w'"
proof (rule deliver_cases [OF assms(3,2)])
  fix c rq res w1
  assume b: "bag w = add_mset c (bag w1)" and ids: "ids_ok w1" and r: "react c res w1 = Some (w', sig)"
    and w1: "w1 = w\<lparr>pending := filter (\<lambda>p. fst p \<noteq> i) (pending w)\<rparr> \<or>
             w1 = expire (w\<lparr>pending := filter (\<lambda>p. fst p \<noteq> i) (pending w)\<rparr>)"
  have "inv (add_mset c (bag w1)) w1"
    using assms(1) w1 b by (auto simp: inv_expire)
  with r ids show ?thesis
    by (blast intro: inv_react ids_ok_react)
qed

lemma auth_step_inv:
  assumes "auth_step w w'" "inv (bag w) w" "ids_ok w"
  shows "inv (bag w') w' \<and> ids_ok w'"
  using assms
proof (cases rule: auth_step.cases)
  case retry
  then have "inv (bag (initialize w)) (initialize w)"
    using assms(2) by (intro inv_initialize_fresh) (auto simp: inv_defs split: option.splits)
  with retry assms(3) show ?thesis by (simp add: ids_ok_initialize)
next
  case (submit_login username password)
  with assms(2,3) show ?thesis
    by (simp add: inv_login) (simp add: login_def ids_ok_send)
next
  case click_logout
  with assms(2,3) show ?thesis
    by (simp add: inv_logout) (simp add: logout_def ids_ok_send)
next
  case (module_request p opts)
  with assms(2,3) show ?thesis
    by (simp add: inv_other inv_send ids_ok_send)
next
  case (outcome i oc sig)
  with assms(2,3) show ?thesis by (blast dest: inv_deliver)
qed

lemma auth_mounted_inv: "inv (bag (initialize world_init)) (initialize world_init) \<and> ids_ok (initialize world_init)"
proof -
  have "inv (bag (initialize world_init)) (initialize world_init)"
    by (rule inv_initialize_fresh)
      (simp_all add: world_init_def app_init_def auth_init_def bag_def inv_defs)
  moreover have "ids_ok world_init"
    by (simp add: ids_ok_def world_init_def)
  ultimately show ?thesis by (simp add: ids_ok_initialize)
qed

subsection \<open>A session is never replaced\<close>

text \<open>While a login is in flight nobody is signed in; with the run invariant, a context request that
  would install a session finds none installed.\<close>

definition login_ok :: "call multiset \<Rightarrow> world \<Rightarrow> bool" where
  "login_ok B w \<longleftrightarrow> (\<exists>c \<in># B. is_login c) \<longrightarrow> \<not> authenticated (auth w)"

lemma is_login_op: "is_login c \<Longrightarrow> is_op c"
  by (cases c) auto

lemma no_other_op:
  assumes "inv (add_mset c B) w" "is_op c"
  shows "\<forall>d \<in># B. \<not> is_op d"
  using assms by (auto simp: inv_def op_ok_def filter_mset_eq_mempty_iff split: if_splits)

lemma auth_init_advance [simp]:
  "auth_actor (auth (init_advance r w)) = auth_actor (auth w)"
  "auth_modules (auth (init_advance r w)) = auth_modules (auth w)"
  "auth_grants (auth (init_advance r w)) = auth_grants (auth w)"
  by (auto simp: init_advance_def init_finish_def accept_start_def Let_def split: option.splits)

definition same_session :: "auth_state \<Rightarrow> auth_state \<Rightarrow> bool" where
  "same_session a b \<longleftrightarrow>
     auth_actor b = auth_actor a \<and> auth_modules b = auth_modules a \<and> auth_grants b = auth_grants a"

lemma react_bag:
  assumes "react c res w = Some (w', sig)" "d \<in># bag w'" "is_login d"
  shows "d \<in># bag w \<or> c = CallLogin"
  using assms
  by (cases c)
    (auto simp: settle_meta_def settle_session_def settle_init_context_def settle_login_def settle_login_context_def
      settle_logout_def accept_start_def bag_init_advance awaited_context_def Let_def
      split: sum.splits cause.splits option.splits if_splits prod.splits)

fun installs :: "call \<Rightarrow> bool" where
  "installs (CallInitContext _ _) = True"
| "installs (CallLoginContext _) = True"
| "installs _ = False"

lemma installs_cases: "installs c \<Longrightarrow> is_ctx c \<or> is_login c"
  by (cases c) auto

lemma installing_signed_out:
  assumes "inv (add_mset c B) w" "login_ok (add_mset c B) w" "installs c"
  shows "\<not> authenticated (auth w)" "\<forall>d \<in># B. \<not> is_op d"
proof -
  have "\<not> authenticated (auth w) \<and> (\<forall>d \<in># B. \<not> is_op d)"
  proof (cases "is_ctx c")
    case True
    then show ?thesis
      using assms(1) by (auto simp: inv_def run_ok_def op_ok_def filter_mset_eq_mempty_iff split: option.splits if_splits)
  next
    case False
    then have "is_login c"
      using installs_cases [OF assms(3)] by blast
    then show ?thesis
      using no_other_op [OF assms(1)] is_login_op assms(2) by (auto simp: login_ok_def)
  qed
  then show "\<not> authenticated (auth w)" "\<forall>d \<in># B. \<not> is_op d" by blast+
qed

lemma react_session:
  assumes "react c res w = Some (w', sig)" "\<not> installs c"
  shows "same_session (auth w) (auth w') \<or> \<not> authenticated (auth w')"
  using assms
  by (cases c)
    (auto simp: same_session_def authenticated_def settle_meta_def settle_session_def settle_login_def
      settle_logout_def set_busy_def accept_start_def init_fail_def init_finish_def expire_def Let_def
      split: sum.splits cause.splits option.splits if_splits prod.splits)

lemma react_login_ok:
  assumes i: "inv (add_mset c (bag w)) w" and l: "login_ok (add_mset c (bag w)) w"
    and r: "react c res w = Some (w', sig)"
  shows "login_ok (bag w') w'"
  unfolding login_ok_def
proof (intro impI notI)
  assume "\<exists>d \<in># bag w'. is_login d" and a: "authenticated (auth w')"
  then obtain d where d: "d \<in># bag w \<or> c = CallLogin" "is_login d"
    using react_bag [OF r] by blast
  then have "\<not> installs c"
    using installing_signed_out(2) [OF i l] is_login_op by auto
  moreover have "\<not> authenticated (auth w)"
    using l d by (auto simp: login_ok_def)
  ultimately show False
    using react_session [OF r] a by (auto simp: same_session_def authenticated_def)
qed

lemma deliver_keeps_session:
  assumes "inv (bag w) w" "ids_ok w" "login_ok (bag w) w" "deliver i oc w = Some (w', sig)"
  shows "login_ok (bag w') w'" "authenticated (auth w) \<Longrightarrow> authenticated (auth w') \<Longrightarrow> same_session (auth w) (auth w')"
proof -
  obtain c res w1 where b: "bag w = add_mset c (bag w1)" and r: "react c res w1 = Some (w', sig)"
    and w1: "w1 = w\<lparr>pending := filter (\<lambda>p. fst p \<noteq> i) (pending w)\<rparr> \<or>
             w1 = expire (w\<lparr>pending := filter (\<lambda>p. fst p \<noteq> i) (pending w)\<rparr>)"
    by (rule deliver_cases [OF assms(4,2)])
  have a: "auth w1 = auth w \<or> \<not> authenticated (auth w1)"
    using w1 by (auto simp: expire_def authenticated_def)
  have i: "inv (add_mset c (bag w1)) w1"
    using assms(1) w1 b by (auto simp: inv_expire)
  have "login_ok (add_mset c (bag w1)) w1"
    using assms(3) a unfolding login_ok_def b by metis
  then show "login_ok (bag w') w'"
    using i r by (blast intro: react_login_ok)
  assume w: "authenticated (auth w)" and w': "authenticated (auth w')"
  have "\<not> installs c"
    using installing_signed_out(1) [of c "bag w1" w] w assms(1,3) by (simp only: b) blast
  then have s: "same_session (auth w1) (auth w')"
    using react_session [OF r] w' by blast
  then have "authenticated (auth w1)"
    using w' by (simp add: same_session_def authenticated_def)
  with a s show "same_session (auth w) (auth w')" by simp
qed

lemma auth_step_session:
  assumes "auth_step w w'" "inv (bag w) w" "ids_ok w" "login_ok (bag w) w"
  shows "login_ok (bag w') w'" "authenticated (auth w) \<Longrightarrow> authenticated (auth w') \<Longrightarrow> same_session (auth w) (auth w')"
proof -
  have "login_ok (bag w') w' \<and> (authenticated (auth w) \<longrightarrow> authenticated (auth w') \<longrightarrow> same_session (auth w) (auth w'))"
    using assms(1)
  proof (cases rule: auth_step.cases)
    case retry
    then show ?thesis
      using assms(2,4) by (auto simp: inv_def error_ok_def login_ok_def initialize_def authenticated_def Let_def
          split: option.splits prod.splits)
  next
    case (outcome i oc sig)
    then show ?thesis using deliver_keeps_session [OF assms(2-4)] by blast
  qed (use assms(4) in \<open>auto simp: login_ok_def same_session_def login_def logout_def set_busy_def authenticated_def\<close>)
  then show "login_ok (bag w') w'" "authenticated (auth w) \<Longrightarrow> authenticated (auth w') \<Longrightarrow> same_session (auth w) (auth w')"
    by blast+
qed

subsection \<open>Reachable worlds\<close>

interpretation au: invariant_system "initialize world_init" auth_step
  "\<lambda>w. inv (bag w) w \<and> ids_ok w \<and> login_ok (bag w) w"
proof unfold_locales
  have "\<not> authenticated (auth (initialize world_init))"
    by (auto simp: initialize_def world_init_def auth_init_def authenticated_def Let_def split: prod.splits)
  then show "inv (bag (initialize world_init)) (initialize world_init) \<and> ids_ok (initialize world_init) \<and>
      login_ok (bag (initialize world_init)) (initialize world_init)"
    using auth_mounted_inv by (simp add: login_ok_def)
qed (blast dest: auth_step_inv auth_step_session(1))

lemma auth_reachable_steps: "auth_reachable w \<longleftrightarrow> rtranclp auth_step (initialize world_init) w"
proof
  show "auth_reachable w \<Longrightarrow> rtranclp auth_step (initialize world_init) w"
    by (induction rule: auth_reachable.induct) auto
  show "rtranclp auth_step (initialize world_init) w \<Longrightarrow> auth_reachable w"
    by (induction rule: rtranclp_induct) (auto intro: auth_reachable.intros)
qed

lemma auth_reachable_inv: "auth_reachable w \<Longrightarrow> inv (bag w) w \<and> ids_ok w"
  using au.reach_inv unfolding auth_reachable_steps by blast

lemma auth_reachable_login_ok: "auth_reachable w \<Longrightarrow> login_ok (bag w) w"
  using au.reach_inv unfolding auth_reachable_steps by blast

lemma auth_reachable_session:
  assumes "auth_reachable w" "auth_step w w'" "authenticated (auth w)" "authenticated (auth w')"
  shows "same_session (auth w) (auth w')"
  using auth_step_session(2) [OF assms(2)] auth_reachable_inv [OF assms(1)] auth_reachable_login_ok [OF assms(1)]
    assms(3,4) by blast

end
