(* ===== verification/Auth_Properties.thy ===== *)
theory Auth_Properties
  imports Auth_Invariants
begin

section \<open>What the session store guarantees\<close>

text \<open>
  Consequences of the invariant for every reachable world, the functional behaviour of a sign-in
  and of a sign-out, and an executable form of the step relation in which concrete runs can be
  evaluated.
\<close>

datatype auth_event =
    Retry
  | SubmitLogin jstr jstr
  | ClickLogout
  | ModuleRequest jstr
  | Outcome nat fetch_outcome

fun auth_exec :: "auth_event \<Rightarrow> world \<Rightarrow> world option" where
  "auth_exec Retry w =
     (if initialized (auth w) \<and> initializationError (auth w) \<noteq> [] then Some (initialize w) else None)"
| "auth_exec (SubmitLogin u p) w =
     (if ready w \<and> \<not> authenticated (auth w) \<and> \<not> busy (auth w) \<and> js_trim u \<noteq> [] \<and> p \<noteq> []
      then Some (login u p w) else None)"
| "auth_exec ClickLogout w =
     (if ready w \<and> authenticated (auth w) \<and> \<not> busy (auth w) then Some (logout w) else None)"
| "auth_exec (ModuleRequest p) w =
     (if ready w \<and> authenticated (auth w) then Some (send (CallOther p) no_options w) else None)"
| "auth_exec (Outcome i oc) w = map_option fst (deliver i oc w)"

fun auth_run :: "auth_event list \<Rightarrow> world \<Rightarrow> world option" where
  "auth_run [] w = Some w"
| "auth_run (e # es) w = (case auth_exec e w of None \<Rightarrow> None | Some w' \<Rightarrow> auth_run es w')"

lemma auth_exec_step: "auth_exec e w = Some w' \<Longrightarrow> auth_step w w'"
  by (cases e) (auto intro: auth_step.intros split: if_splits)

lemma auth_run_reachable:
  "auth_run es w = Some w' \<Longrightarrow> auth_reachable w \<Longrightarrow> auth_reachable w'"
  by (induction es arbitrary: w)
    (auto dest: auth_exec_step intro: auth_reachable.step split: option.splits)

subsection \<open>A concrete session for the witnesses\<close>

definition sample_actor_json :: jval where
  "sample_actor_json =
     JObj [(lit ''id'', JStr (lit ''a'')), (lit ''type'', JStr (lit ''h'')),
           (lit ''display_name'', JStr (lit ''A'')),
           (lit ''scope'', JObj [(lit ''kind'', JStr (lit ''w'')), (lit ''id'', JStr (lit ''d''))])]"

definition sample_session_json :: jval where
  "sample_session_json =
     JObj [(lit ''actor'', sample_actor_json), (lit ''csrf_token'', JStr (lit ''t'')),
           (lit ''expires_at'', JStr (lit ''z'')), (lit ''request_id'', JStr (lit ''r''))]"

definition sample_session :: session where
  "sample_session = \<lparr>session_actor = \<lparr>actor_id = lit ''a'', actor_type = lit ''h'', display_name = lit ''A'',
      actor_scope = \<lparr>scope_kind = lit ''w'', scope_id = lit ''d''\<rparr>\<rparr>,
     csrf_token = lit ''t'', expires_at = lit ''z'', session_request_id = lit ''r''\<rparr>"

definition sample_context_json :: jval where
  "sample_context_json = JObj [(lit ''modules'', JArr []), (lit ''grants'', JArr [JStr (lit ''g'')])]"

definition sample_context :: admin_context where
  "sample_context = \<lparr>context_modules = [], context_grants = [lit ''g'']\<rparr>"

definition sample_meta_json :: jval where
  "sample_meta_json = JObj [(lit ''name'', JStr (lit ''N'')), (lit ''version'', JStr (lit ''1''))]"

lemma sample_readers [simp]:
  "as_session sample_session_json = Some sample_session"
  "as_admin_context sample_context_json = Some sample_context"
  "truthy sample_session_json" "member sample_meta_json ''name'' = Some (JStr (lit ''N''))"
  by (simp_all add: sample_session_json_def sample_actor_json_def sample_session_def
      sample_context_json_def sample_context_def sample_meta_json_def as_session_def as_actor_def
      as_admin_context_def str_field_def member_def)

lemmas auth_eval = initialize_def world_init_def app_init_def auth_init_def app_load_def
  deliver_def expiry_handler_def payload_of_def settle_meta_def app_settle_def settle_session_def
  settle_init_context_def settle_login_def settle_login_context_def settle_logout_def
  init_advance_def init_finish_def accept_start_def accept_done_def accept_fail_def
  send_def ready_def authenticated_def login_def set_busy_def

definition ok :: "jval \<Rightarrow> fetch_outcome" where
  "ok v = Response 200 (Some v)"

definition unauthorized :: fetch_outcome where
  "unauthorized = Response 401 None"

definition sign_in_run :: "auth_event list" where
  "sign_in_run = [Outcome 0 (ok sample_meta_json), Outcome 1 (ok sample_session_json),
     Outcome 2 (ok sample_context_json)]"

lemma sign_in_run_result:
  "\<exists>w. auth_run sign_in_run (initialize world_init) = Some w \<and> ready w \<and> authenticated (auth w) \<and>
     csrfToken w = lit ''t'' \<and> pending w = [] \<and> next_call w = 3 \<and> handler_on w \<and> init_run w = None \<and> \<not> busy (auth w)"
  by (simp add: sign_in_run_def ok_def auth_eval sample_session_def)

lemma mounted_run_reachable: "auth_run es (initialize world_init) = Some w \<Longrightarrow> auth_reachable w"
  by (rule auth_run_reachable [OF _ auth_reachable.mounted])

subsection \<open>Invariant consequences\<close>

text \<open>
  C13.  The loading screen never hangs: as long as the application is not initialized, some
  request of the current run of \<open>initialize\<close> is in flight, so its outcome moves the run on; and
  when nothing is in flight the application is initialized and no operation is marked busy.
\<close>

theorem initialization_never_stalls:
  assumes "auth_reachable w"
  shows "(\<not> initialized (auth w) \<longrightarrow>
           (\<exists>r. init_run w = Some r \<and>
             (\<exists>c \<in># bag w. c = CallMeta \<or> c = CallSession (run_id r) \<or>
               (\<exists>s. c = CallInitContext (run_id r) s)))) \<and>
         (pending w = [] \<longrightarrow> initialized (auth w) \<and> \<not> busy (auth w))"
proof -
  have i: "inv (bag w) w"
    using assms by (simp add: auth_reachable_inv)
  have "\<exists>c \<in># bag w. c = CallMeta \<or> c = CallSession (run_id r) \<or> (\<exists>s. c = CallInitContext (run_id r) s)"
    if r: "init_run w = Some r" for r
  proof -
    consider "\<not> meta_ready r" | "answer r = None" | s where "meta_ready r" "answer r = Some (Some s)"
      using i r by (cases "answer r") (auto simp: inv_def run_ok_def)
    then show ?thesis
    proof cases
      case 1
      then have "count (bag w) CallMeta = 1"
        using i r by (simp add: inv_def run_ok_def meta_ok_def)
      then show ?thesis by (metis count_eq_zero_iff zero_neq_one)
    next
      case 2
      then have "count (bag w) (CallSession (run_id r)) = 1"
        using i r by (simp add: inv_def run_ok_def)
      then show ?thesis by (metis count_eq_zero_iff zero_neq_one)
    next
      case 3
      then have "filter_mset is_ctx (bag w) = {#CallInitContext (run_id r) s#}"
        using i r by (simp add: inv_def run_ok_def awaited_context_def)
      then have "CallInitContext (run_id r) s \<in># filter_mset is_ctx (bag w)"
        by simp
      then show ?thesis by auto
    qed
  qed
  then show ?thesis
    using i by (auto simp: inv_def run_ok_def op_ok_def bag_def split: option.splits if_splits)
qed

theorem initialization_never_stalls_witness:
  "auth_reachable (initialize world_init) \<and> \<not> initialized (auth (initialize world_init)) \<and>
   (\<exists>r. init_run (initialize world_init) = Some r \<and>
      (\<exists>c \<in># bag (initialize world_init). c = CallMeta \<or> c = CallSession (run_id r) \<or>
         (\<exists>s. c = CallInitContext (run_id r) s)))"
proof -
  have "\<not> initialized (auth (initialize world_init))"
    by (simp add: auth_eval)
  then show ?thesis
    using initialization_never_stalls [OF auth_reachable.mounted] auth_reachable.mounted by blast
qed

text \<open>
  C1.  Without an actor there are no rights: in every reachable world in which nobody is signed
  in, the descriptor list is empty and no permission is granted, however requests interleaved.
\<close>

theorem no_actor_no_rights:
  assumes "auth_reachable w" and "\<not> authenticated (auth w)"
  shows "auth_modules (auth w) = [] \<and> \<not> can (auth w) permission"
  using auth_reachable_inv [OF assms(1)] assms(2)
  by (auto simp: inv_def cleared_ok_def can_def)

theorem no_actor_no_rights_witness:
  "auth_modules (auth (initialize world_init)) = [] \<and> \<not> can (auth (initialize world_init)) (lit ''records.list'')"
  by (rule no_actor_no_rights [OF auth_reachable.mounted]) (simp add: auth_eval)

text \<open>
  C32.  The initialization error panel excludes a session: while an error is shown the run has
  ended, nobody is signed in, and neither a sign-in nor a sign-out is in flight.
\<close>

theorem error_panel_excludes_session:
  assumes "auth_reachable w" and "initializationError (auth w) \<noteq> []"
  shows "initialized (auth w) \<and> \<not> authenticated (auth w) \<and> \<not> busy (auth w) \<and>
         filter_mset is_op (bag w) = {#}"
  using auth_reachable_inv [OF assms(1)] assms(2)
  by (auto simp: inv_def error_ok_def run_ok_def op_ok_def split: option.splits)

theorem error_panel_excludes_session_witness:
  "\<exists>w. auth_run [Outcome 1 (FetchRejected OtherCause)] (initialize world_init) = Some w \<and>
       initializationError (auth w) = unavailable_text \<and> initialized (auth w) \<and> \<not> authenticated (auth w)"
proof -
  obtain w where w: "auth_run [Outcome 1 (FetchRejected OtherCause)] (initialize world_init) = Some w"
      "initializationError (auth w) = unavailable_text"
    by (simp add: auth_eval init_fail_def expire_def)
  then have "initializationError (auth w) \<noteq> []"
    by (simp add: unavailable_text_def)
  then show ?thesis
    using w error_panel_excludes_session [OF mounted_run_reachable [OF w(1)]] by blast
qed

text \<open>
  C14.  Single flight: in every reachable world at most one metadata request is in flight, and
  none once the metadata is there; at most one sign-in or sign-out is in flight, exactly when the
  store is marked busy.
\<close>

theorem single_flight:
  assumes "auth_reachable w"
  shows "count (bag w) CallMeta \<le> 1 \<and>
         (app_promise (app w) = FulfilledPromise \<longrightarrow> count (bag w) CallMeta = 0) \<and>
         size (filter_mset is_op (bag w)) = (if busy (auth w) then 1 else 0)"
  using auth_reachable_inv [OF assms] by (auto simp: inv_def meta_ok_def op_ok_def)

theorem single_flight_witness:
  "\<exists>w. auth_run sign_in_run (initialize world_init) = Some w \<and> count (bag w) CallMeta \<le> 1"
  using sign_in_run_result single_flight mounted_run_reachable by blast

text \<open>
  C4.  A session is never replaced behind the user's back: as long as somebody stays signed in,
  whatever the user does and however the requests of earlier sign-ins, sign-outs and initialization
  runs are answered, the actor, the modules and the grants stay the same.  To change them somebody
  has to be signed out first.
\<close>

theorem session_never_replaced:
  assumes "auth_reachable w" and "auth_step w w'" and "authenticated (auth w)" and "authenticated (auth w')"
  shows "auth_actor (auth w') = auth_actor (auth w) \<and> auth_modules (auth w') = auth_modules (auth w) \<and>
    (\<forall>permission. can (auth w') permission \<longleftrightarrow> can (auth w) permission)"
  using auth_reachable_session [OF assms] by (simp add: same_session_def can_def)

theorem session_never_replaced_witness:
  "\<exists>w. auth_run sign_in_run (initialize world_init) = Some w \<and> authenticated (auth w) \<and>
     auth_actor (auth (logout w)) = auth_actor (auth w)"
proof -
  obtain w where w: "auth_run sign_in_run (initialize world_init) = Some w" "ready w" "authenticated (auth w)"
      "\<not> busy (auth w)"
    using sign_in_run_result by blast
  have "authenticated (auth (logout w))"
    using w(3) by (simp add: logout_def set_busy_def authenticated_def)
  then show ?thesis
    using session_never_replaced [OF mounted_run_reachable [OF w(1)] auth_step.click_logout [OF w(2-4)] w(3)] w(1,3)
    by blast
qed

subsection \<open>Signing in and out\<close>

lemma deliver_send:
  assumes "ids_ok w"
  shows "deliver (next_call w) oc (send c opts w) =
    (let (res, w2) = api_settle (expiry_handler w) (call_path c) oc (w\<lparr>next_call := Suc (next_call w)\<rparr>)
     in react c res w2)"
proof -
  have n: "\<forall>p \<in> set (pending w). fst p \<noteq> next_call w"
    using assms by (auto simp: ids_ok_def)
  then have "map_of (pending w) (next_call w) = None"
    by (auto simp: map_of_eq_None_iff)
  moreover have "filter (\<lambda>p. fst p \<noteq> next_call w) (pending w) = pending w"
    using n by (simp add: filter_id_conv)
  ultimately show ?thesis
    by (simp add: deliver_def send_def expiry_handler_def map_add_def)
qed

text \<open>The first half of a sign-in: the login answer stores the token and asks for the context.\<close>

definition after_login :: "session \<Rightarrow> world \<Rightarrow> world" where
  "after_login s w = (set_busy True w)\<lparr>next_call := Suc (next_call w), csrfToken := csrf_token s\<rparr>"

lemma after_login_fields [simp]:
  "next_call (after_login s w) = Suc (next_call w)" "pending (after_login s w) = pending w"
  "auth (after_login s w) = (auth w)\<lparr>busy := True\<rparr>" "csrfToken (after_login s w) = csrf_token s"
  by (simp_all add: after_login_def set_busy_def)

lemma login_answered:
  assumes "ids_ok w" "as_session sv = Some s"
  shows "deliver (next_call w) (Response 200 (Some sv)) (login u p w) =
      Some (send (CallLoginContext s) no_options (after_login s w), Silent)"
    and "ids_ok (after_login s w)"
proof -
  have nc: "next_call (set_busy True w) = next_call w"
    by (simp add: set_busy_def)
  show "deliver (next_call w) (Response 200 (Some sv)) (login u p w) =
      Some (send (CallLoginContext s) no_options (after_login s w), Silent)"
    using deliver_send [of "set_busy True w" "Response 200 (Some sv)" CallLogin] assms
    by (simp add: login_def settle_login_def accept_start_def payload_of_def after_login_def nc)
  show "ids_ok (after_login s w)"
    using assms(1) by (simp add: ids_ok_def less_SucI)
qed

lemma login_completes:
  assumes "auth_reachable w" and "as_session sv = Some s" and "as_admin_context cv = Some ctx"
  shows "\<exists>w1 w2. deliver (next_call w) (Response 200 (Some sv)) (login u p w) = Some (w1, Silent) \<and>
     deliver (Suc (next_call w)) (Response 200 (Some cv)) w1 = Some (w2, LoginResolved) \<and>
     auth w2 = (auth w)\<lparr>auth_actor := Some (session_actor s), auth_modules := context_modules ctx,
       auth_grants := set (context_grants ctx), busy := False\<rparr> \<and>
     csrfToken w2 = csrf_token s \<and> pending w2 = pending w"
proof -
  have ids: "ids_ok w"
    using assms(1) by (simp add: auth_reachable_inv)
  have "deliver (Suc (next_call w)) (Response 200 (Some cv)) (send (CallLoginContext s) no_options (after_login s w)) =
      Some (set_busy False (accept_done s ctx ((after_login s w)\<lparr>next_call := Suc (Suc (next_call w))\<rparr>)), LoginResolved)"
    using deliver_send [OF login_answered(2) [OF ids assms(2)], of "Response 200 (Some cv)" "CallLoginContext s"] assms(3)
    by (simp add: settle_login_context_def payload_of_def)
  then show ?thesis
    using login_answered(1) [OF ids assms(2), of u p] by (simp add: set_busy_def accept_done_def)
qed



lemma deliver_send_result:
  assumes "ids_ok w"
  shows "\<exists>w2. deliver (next_call w) oc (send c opts w) = react c (api_result (call_path c) oc) w2 \<and>
     (w2 = w\<lparr>next_call := Suc (next_call w)\<rparr> \<or>
      (w2 = expire (w\<lparr>next_call := Suc (next_call w)\<rparr>) \<and> call_path c \<notin> set exempt_paths \<and>
       (\<exists>e. api_result (call_path c) oc = Inl (ApiCause e) \<and> err_status e = 401)))"
proof -
  let ?w = "w\<lparr>next_call := Suc (next_call w)\<rparr>"
  define w2 where "w2 = snd (api_settle (expiry_handler w) (call_path c) oc ?w)"
  have "deliver (next_call w) oc (send c opts w) = react c (api_result (call_path c) oc) w2"
    using deliver_send [OF assms, of oc c opts]
      api_settle_api_result [of "expiry_handler w" "call_path c" oc ?w]
    by (simp add: w2_def case_prod_beta Let_def)
  moreover have "w2 = ?w \<or> (w2 = expire ?w \<and> call_path c \<notin> set exempt_paths \<and>
      (\<exists>e. api_result (call_path c) oc = Inl (ApiCause e) \<and> err_status e = 401))"
    using api_settle_state [of "expiry_handler w" "call_path c" oc ?w]
      api_settle_exempt [of "call_path c" "expiry_handler w" oc ?w]
      api_settle_api_result [of "expiry_handler w" "call_path c" oc ?w]
    by (auto simp: w2_def expiry_handler_def run_handler_def)
  ultimately show ?thesis by blast
qed

lemma login_context_rejected:
  assumes "ids_ok w" "as_session sv = Some s" "api_result (lit ''/api/admin/context'') oc = Inl c"
  shows "\<exists>w1 w2. deliver (next_call w) (Response 200 (Some sv)) (login u p w) = Some (w1, Silent) \<and>
     deliver (Suc (next_call w)) oc w1 = Some (w2, LoginRejected c) \<and> \<not> busy (auth w2) \<and> csrfToken w2 = [] \<and>
     pending w2 = pending w \<and> auth_actor (auth w2) \<in> {None, auth_actor (auth w)}"
proof -
  note a = login_answered [OF assms(1,2)]
  obtain x where "deliver (Suc (next_call w)) oc (send (CallLoginContext s) no_options (after_login s w)) =
      react (CallLoginContext s) (Inl c) x"
    "x = (after_login s w)\<lparr>next_call := Suc (Suc (next_call w))\<rparr> \<or>
     x = expire ((after_login s w)\<lparr>next_call := Suc (Suc (next_call w))\<rparr>)"
    using deliver_send_result [OF a(2), of oc "CallLoginContext s" no_options] assms(3) by auto
  then show ?thesis
    using a(1) by (auto simp: settle_login_context_def set_busy_def accept_fail_def expire_def)
qed

text \<open>
  C31.  A rejected sign-in signs nobody in.  When the login request fails, for whatever reason, the
  session state is what it was before, the store is no longer busy, the CSRF token is unchanged
  and the login promise rejects with that reason.  When the login request succeeds and the request
  for the context fails, the promise rejects with that reason, the store is no longer busy, the
  token it had just stored is gone, and no new actor is set.
\<close>

theorem login_rejected:
  assumes "auth_reachable w" and "as_session sv = Some s"
  shows "(api_result (lit ''/api/auth/login'') oc = Inl c \<longrightarrow>
      (\<exists>w'. deliver (next_call w) oc (login u p w) = Some (w', LoginRejected c) \<and>
         auth w' = (auth w)\<lparr>busy := False\<rparr> \<and> csrfToken w' = csrfToken w \<and> pending w' = pending w)) \<and>
    (api_result (lit ''/api/admin/context'') oc = Inl c \<longrightarrow>
      (\<exists>w1 w2. deliver (next_call w) (Response 200 (Some sv)) (login u p w) = Some (w1, Silent) \<and>
         deliver (Suc (next_call w)) oc w1 = Some (w2, LoginRejected c) \<and> \<not> busy (auth w2) \<and> csrfToken w2 = [] \<and>
         pending w2 = pending w \<and> auth_actor (auth w2) \<in> {None, auth_actor (auth w)}))"
proof (intro conjI impI)
  have ids: "ids_ok w" "ids_ok (set_busy True w)" "next_call (set_busy True w) = next_call w"
    using assms(1) by (simp_all add: auth_reachable_inv set_busy_def)
  show "\<exists>w'. deliver (next_call w) oc (login u p w) = Some (w', LoginRejected c) \<and>
         auth w' = (auth w)\<lparr>busy := False\<rparr> \<and> csrfToken w' = csrfToken w \<and> pending w' = pending w"
    if "api_result (lit ''/api/auth/login'') oc = Inl c"
    using deliver_send_result [of "set_busy True w" oc CallLogin "post (login_body u p)"] that ids(2,3)
    by (auto simp: login_def settle_login_def set_busy_def exempt_paths_def)
qed (use login_context_rejected assms auth_reachable_inv in blast)

theorem login_rejected_witness:
  "\<exists>w'. deliver 2 (FetchRejected OtherCause) (login (lit ''u'') (lit ''p'') (initialize world_init)) =
      Some (w', LoginRejected OtherCause) \<and> csrfToken w' = [] \<and> \<not> busy (auth w')"
proof -
  have "next_call (initialize world_init) = 2" "csrfToken (initialize world_init) = []"
    by (simp_all add: auth_eval)
  then show ?thesis
    using login_rejected [OF auth_reachable.mounted sample_readers(1), of "FetchRejected OtherCause" OtherCause
        "lit ''u''" "lit ''p''"]
    by (auto simp: api_result_def)
qed

lemma logout_delivered:
  assumes "ids_ok w"
  shows "\<exists>w'. (case api_result (lit ''/api/auth/logout'') oc of
             Inr v \<Rightarrow> deliver (next_call w) oc (logout w) = Some (w', LogoutResolved) \<and>
               auth w' = (auth w)\<lparr>auth_actor := None, auth_modules := [], auth_grants := {}, busy := False\<rparr> \<and>
               csrfToken w' = []
           | Inl c \<Rightarrow> deliver (next_call w) oc (logout w) = Some (w', LogoutRejected c) \<and>
               \<not> busy (auth w') \<and>
               ((\<exists>e. c = ApiCause e \<and> err_status e = 401) \<or>
                auth w' = (auth w)\<lparr>busy := False\<rparr> \<and> csrfToken w' = csrfToken w))"
proof -
  obtain w2 where w2: "deliver (next_call w) oc (logout w) = react CallLogout (api_result (lit ''/api/auth/logout'') oc) w2"
    "w2 = (set_busy True w)\<lparr>next_call := Suc (next_call w)\<rparr> \<or>
     (\<exists>e. api_result (lit ''/api/auth/logout'') oc = Inl (ApiCause e) \<and> err_status e = 401)"
    using deliver_send_result [of "set_busy True w" oc CallLogout "post (lit ''{}'')"] assms
    by (auto simp: logout_def set_busy_def)
  then show ?thesis
    by (cases "api_result (lit ''/api/auth/logout'') oc")
      (auto simp: settle_logout_def set_busy_def expire_def)
qed

text \<open>
  Signing out: the request carries the session's CSRF token; if the server confirms, the
  actor, the rights and the token are gone; if it fails with anything but a 401 the session state
  and the token stay as they were, so the user remains signed in; in both cases the store is no
  longer busy.
\<close>

lemma logout_outcomes:
  assumes "auth_reachable w" and "csrfToken w \<noteq> []"
  shows "(\<exists>rq. map_of (pending (logout w)) (next_call w) = Some (CallLogout, rq) \<and>
            map_of (req_headers rq) (lit ''x-csrf-token'') = Some (csrfToken w)) \<and>
         (\<exists>w'. (case api_result (lit ''/api/auth/logout'') oc of
             Inr v \<Rightarrow> deliver (next_call w) oc (logout w) = Some (w', LogoutResolved) \<and>
               auth w' = (auth w)\<lparr>auth_actor := None, auth_modules := [], auth_grants := {}, busy := False\<rparr> \<and>
               csrfToken w' = []
           | Inl c \<Rightarrow> deliver (next_call w) oc (logout w) = Some (w', LogoutRejected c) \<and>
               \<not> busy (auth w') \<and>
               ((\<exists>e. c = ApiCause e \<and> err_status e = 401) \<or>
                auth w' = (auth w)\<lparr>busy := False\<rparr> \<and> csrfToken w' = csrfToken w)))"
proof
  have ids: "ids_ok w"
    using assms(1) by (simp add: auth_reachable_inv)
  then have "map_of (pending w) (next_call w) = None"
    by (force simp: map_of_eq_None_iff ids_ok_def)
  then show "\<exists>rq. map_of (pending (logout w)) (next_call w) = Some (CallLogout, rq) \<and>
      map_of (req_headers rq) (lit ''x-csrf-token'') = Some (csrfToken w)"
    using assms(2)
    by (simp add: logout_def send_def set_busy_def map_add_def api_request_def post_def no_options_def
        header_set_def sends_token_def Let_def)
  show "\<exists>w'. (case api_result (lit ''/api/auth/logout'') oc of
             Inr v \<Rightarrow> deliver (next_call w) oc (logout w) = Some (w', LogoutResolved) \<and>
               auth w' = (auth w)\<lparr>auth_actor := None, auth_modules := [], auth_grants := {}, busy := False\<rparr> \<and>
               csrfToken w' = []
           | Inl c \<Rightarrow> deliver (next_call w) oc (logout w) = Some (w', LogoutRejected c) \<and>
               \<not> busy (auth w') \<and>
               ((\<exists>e. c = ApiCause e \<and> err_status e = 401) \<or>
                auth w' = (auth w)\<lparr>busy := False\<rparr> \<and> csrfToken w' = csrfToken w))"
    by (rule logout_delivered [OF ids])
qed

text \<open>Once the provider is unmounted, no answer to a request of a module view changes the session.\<close>

lemma unmounted_keeps_session:
  assumes "map_of (pending w) i = Some (CallOther p, rq)"
  shows "\<exists>w'. deliver i oc (auth_unmount w) = Some (w', Silent) \<and> auth w' = auth w \<and> csrfToken w' = csrfToken w"
  using assms by (auto simp: deliver_def auth_unmount_def expiry_handler_def api_settle_def run_handler_def Let_def
      split: fetch_outcome.split cause.split)

subsection \<open>A late 401 during a sign-in\<close>

text \<open>
  A session can lose its token.  A 401 of a request left over from an earlier
  session, arriving after the login answer and before the Admin context, runs the expiry handler:
  it clears the CSRF token that \<open>accept\<close> has just stored, and \<open>accept\<close> then completes without
  storing it again.  The user is signed in with no token, so that every mutation is sent without
  one.
\<close>

definition late_401_run :: "auth_event list" where
  "late_401_run = sign_in_run @
     [ModuleRequest (lit ''/api/records''), ModuleRequest (lit ''/api/tasks''),
      Outcome 3 unauthorized, SubmitLogin (lit ''u'') (lit ''p''), Outcome 5 (ok sample_session_json),
      Outcome 4 unauthorized, Outcome 6 (ok sample_context_json)]"

lemma late_401_loses_token:
  "\<exists>w. auth_reachable w \<and> authenticated (auth w) \<and> csrfToken w = [] \<and> pending w = []"
proof -
  have "js_trim (lit ''u'') \<noteq> []"
    by (simp add: js_trim_empty_iff lit_def is_js_space_def)
  then have "\<exists>w. auth_run late_401_run (initialize world_init) = Some w \<and> authenticated (auth w) \<and>
      csrfToken w = [] \<and> pending w = []"
    by (simp add: late_401_run_def sign_in_run_def ok_def unauthorized_def auth_eval api_settle_not_ok
        exempt_paths_def run_handler_def expire_def empty_object_def)
  then show ?thesis
    using mounted_run_reachable by blast
qed

text \<open>
  The empty text stands for no error.  When the metadata request fails with an error of the API whose
  message is empty, the run ends with no error to show, and the boundary renders the routes as if the
  application had been initialized.
\<close>

lemma empty_message_hides_failure:
  assumes "init_run w = Some r" "\<not> meta_ready r" "err_message e = []"
  shows "ready (settle_meta (Inl (ApiCause e)) w)" "\<not> authenticated (auth (settle_meta (Inl (ApiCause e)) w))"
  using assms
  by (simp_all add: settle_meta_def app_settle_def init_fail_def init_finish_def expire_def ready_def
      authenticated_def Let_def)

end
