(* ===== verification/Auth_Oidc.thy ===== *)
theory Auth_Oidc
  imports Auth_Properties Admin_Parts
begin

section \<open>The OIDC variant of the session store: \<open>stores/auth.oidc.tsx\<close>\<close>

text \<open>
  With OIDC the browser leaves the application to sign in, so the provider has no \<open>login\<close>; the
  rest of it is a second copy of the code of \<open>stores/auth.tsx\<close>.  The copy is modelled from its own
  source, with its own step relation and no continuation for a login.  It is then compared with the
  local store: the callbacks both have do the same (\<open>oidc_same\<close>), so each run of the variant is
  a run of the local store and its invariants carry over.
\<close>

subsection \<open>Callbacks\<close>

definition oidc_init :: auth_state where
  "oidc_init = \<lparr>auth_actor = None, auth_modules = [], auth_grants = {}, initialized = False,
     initializationError = [], busy = False\<rparr>"

definition oidc_world :: world where
  "oidc_world = \<lparr>app = app_init, auth = oidc_init, csrfToken = [], handler_on = True,
     init_run = None, pending = [], next_call = 0\<rparr>"

definition oidc_accept_start :: "session \<Rightarrow> call \<Rightarrow> world \<Rightarrow> world" where
  "oidc_accept_start s c w = send c no_options (setCSRFToken (csrf_token s) w)"

definition oidc_accept_fail :: "world \<Rightarrow> world" where
  "oidc_accept_fail w = setCSRFToken [] w"

definition oidc_accept_done :: "session \<Rightarrow> admin_context \<Rightarrow> world \<Rightarrow> world" where
  "oidc_accept_done s ctx w =
     w\<lparr>auth := (auth w)\<lparr>auth_actor := Some (session_actor s), auth_modules := context_modules ctx,
       auth_grants := set (context_grants ctx)\<rparr>\<rparr>"

definition oidc_expire :: "world \<Rightarrow> world" where
  "oidc_expire w =
     setCSRFToken [] (w\<lparr>auth := (auth w)\<lparr>auth_actor := None, auth_modules := [], auth_grants := {}\<rparr>\<rparr>)"

definition oidc_expiry_handler :: "world \<Rightarrow> world expired_handler" where
  "oidc_expiry_handler w = (if handler_on w then Some oidc_expire else None)"

definition oidc_initialize :: "world \<Rightarrow> world" where
  "oidc_initialize w =
     (case init_run w of
        Some _ \<Rightarrow> w
      | None \<Rightarrow>
          (let w1 = w\<lparr>auth := (auth w)\<lparr>initialized := False, initializationError := []\<rparr>\<rparr>;
               (issue, a) = app_load (app w1);
               w2 = w1\<lparr>app := a\<rparr>;
               w3 = (if issue then send CallMeta no_options w2 else w2);
               r = next_call w3;
               w4 = send (CallSession r) no_options w3
           in w4\<lparr>init_run := Some \<lparr>run_id = r,
                   meta_ready = (app_promise a = FulfilledPromise), answer = None\<rparr>\<rparr>))"

definition oidc_init_finish :: "nat \<Rightarrow> world \<Rightarrow> world" where
  "oidc_init_finish i w =
     w\<lparr>auth := (auth w)\<lparr>initialized := True\<rparr>,
       init_run := (case init_run w of
                      None \<Rightarrow> None
                    | Some r \<Rightarrow> if run_id r = i then None else Some r)\<rparr>"

definition oidc_init_fail :: "nat \<Rightarrow> cause \<Rightarrow> world \<Rightarrow> world" where
  "oidc_init_fail i c w =
     (let w1 = oidc_expire w
      in oidc_init_finish i
           (w1\<lparr>auth := (auth w1)\<lparr>initializationError := cause_message unavailable_text c\<rparr>\<rparr>))"

definition oidc_init_advance :: "init_run \<Rightarrow> world \<Rightarrow> world" where
  "oidc_init_advance r w =
     (let w1 = w\<lparr>init_run := Some r\<rparr>
      in if meta_ready r then
           (case answer r of
              None \<Rightarrow> w1
            | Some None \<Rightarrow> oidc_init_finish (run_id r) w1
            | Some (Some s) \<Rightarrow> oidc_accept_start s (CallInitContext (run_id r) s) w1)
         else w1)"

definition oidc_settle_meta :: "cause + jval \<Rightarrow> world \<Rightarrow> world" where
  "oidc_settle_meta res w =
     (let (out, a) = app_settle res (app w); w1 = w\<lparr>app := a\<rparr>
      in case init_run w1 of
           None \<Rightarrow> w1
         | Some r \<Rightarrow>
             if meta_ready r then w1
             else (case out of
                     Inl c \<Rightarrow> oidc_init_fail (run_id r) c w1
                   | Inr _ \<Rightarrow> oidc_init_advance (r\<lparr>meta_ready := True\<rparr>) w1))"

definition oidc_settle_session :: "nat \<Rightarrow> cause + jval \<Rightarrow> world \<Rightarrow> world option" where
  "oidc_settle_session i res w =
     (case init_run w of
        None \<Rightarrow> Some w
      | Some r \<Rightarrow>
          if run_id r \<noteq> i \<or> answer r \<noteq> None then Some w
          else
            (case res of
               Inl (ApiCause e) \<Rightarrow>
                 if err_status e = 401 then Some (oidc_init_advance (r\<lparr>answer := Some None\<rparr>) w)
                 else Some (oidc_init_fail i (ApiCause e) w)
             | Inl c \<Rightarrow> Some (oidc_init_fail i c w)
             | Inr v \<Rightarrow>
                 if truthy v then
                   map_option (\<lambda>s. oidc_init_advance (r\<lparr>answer := Some (Some s)\<rparr>) w) (as_session v)
                 else Some (oidc_init_advance (r\<lparr>answer := Some None\<rparr>) w)))"

definition oidc_settle_init_context :: "nat \<Rightarrow> session \<Rightarrow> cause + jval \<Rightarrow> world \<Rightarrow> world option" where
  "oidc_settle_init_context i s res w =
     (case res of
        Inl c \<Rightarrow> Some (oidc_init_fail i c (oidc_accept_fail w))
      | Inr v \<Rightarrow>
          map_option (\<lambda>ctx. oidc_init_finish i (oidc_accept_done s ctx w)) (as_admin_context v))"

definition oidc_logout :: "world \<Rightarrow> world" where
  "oidc_logout w = send CallLogout (post (lit ''{}'')) (set_busy True w)"

definition oidc_settle_logout :: "cause + jval \<Rightarrow> world \<Rightarrow> world \<times> signal" where
  "oidc_settle_logout res w =
     (case res of
        Inl c \<Rightarrow> (set_busy False w, LogoutRejected c)
      | Inr _ \<Rightarrow> (set_busy False (oidc_expire w), LogoutResolved))"

definition oidc_can :: "auth_state \<Rightarrow> jstr \<Rightarrow> bool" where
  "oidc_can a permission \<longleftrightarrow> permission \<in> auth_grants a"

record oidc_value =
  oidc_actor :: "actor option"
  oidc_modules :: "admin_descriptor list"
  oidc_grants :: "jstr set"
  oidc_initialized :: bool
  oidc_initializationError :: jstr
  oidc_busy :: bool
  oidc_authenticated :: bool
  oidc_value_can :: "jstr \<Rightarrow> bool"
  oidc_value_initialize :: "world \<Rightarrow> world"
  oidc_value_logout :: "world \<Rightarrow> world"

definition oidc_context :: "auth_state \<Rightarrow> oidc_value" where
  "oidc_context a =
     \<lparr>oidc_actor = auth_actor a, oidc_modules = auth_modules a, oidc_grants = auth_grants a,
      oidc_initialized = initialized a, oidc_initializationError = initializationError a,
      oidc_busy = busy a, oidc_authenticated = (auth_actor a \<noteq> None), oidc_value_can = oidc_can a,
      oidc_value_initialize = oidc_initialize, oidc_value_logout = oidc_logout\<rparr>"

text \<open>The local store's value without its \<open>login\<close>.\<close>

definition without_login :: "auth_value \<Rightarrow> oidc_value" where
  "without_login v =
     \<lparr>oidc_actor = value_actor v, oidc_modules = value_modules v, oidc_grants = value_grants v,
      oidc_initialized = value_initialized v, oidc_initializationError = value_initializationError v,
      oidc_busy = value_busy v, oidc_authenticated = value_authenticated v, oidc_value_can = value_can v,
      oidc_value_initialize = value_initialize v, oidc_value_logout = value_logout v\<rparr>"

definition oidc_useAuth :: "'a option \<Rightarrow> jstr + 'a" where
  "oidc_useAuth value = require_context ''useAuth must be used inside AuthProvider'' value"

subsection \<open>Steps\<close>

fun oidc_react :: "call \<Rightarrow> cause + jval \<Rightarrow> world \<Rightarrow> (world \<times> signal) option" where
  "oidc_react CallMeta res w = Some (oidc_settle_meta res w, Silent)"
| "oidc_react (CallSession i) res w = map_option (\<lambda>w'. (w', Silent)) (oidc_settle_session i res w)"
| "oidc_react (CallInitContext i s) res w =
     map_option (\<lambda>w'. (w', Silent)) (oidc_settle_init_context i s res w)"
| "oidc_react CallLogout res w = Some (oidc_settle_logout res w)"
| "oidc_react (CallOther p) res w = Some (w, Silent)"
| "oidc_react _ res w = None"

definition oidc_deliver :: "nat \<Rightarrow> fetch_outcome \<Rightarrow> world \<Rightarrow> (world \<times> signal) option" where
  "oidc_deliver i oc w =
     (case map_of (pending w) i of
        None \<Rightarrow> None
      | Some (c, rq) \<Rightarrow>
          (let w1 = w\<lparr>pending := filter (\<lambda>p. fst p \<noteq> i) (pending w)\<rparr>;
               (res, w2) = api_settle (oidc_expiry_handler w1) (call_path c) oc w1
           in oidc_react c res w2))"

inductive oidc_step :: "world \<Rightarrow> world \<Rightarrow> bool" where
  oidc_retry: "initialized (auth w) \<Longrightarrow> initializationError (auth w) \<noteq> [] \<Longrightarrow>
     oidc_step w (oidc_initialize w)"
| oidc_click_logout: "ready w \<Longrightarrow> authenticated (auth w) \<Longrightarrow> \<not> busy (auth w) \<Longrightarrow>
     oidc_step w (oidc_logout w)"
| oidc_module_request: "ready w \<Longrightarrow> authenticated (auth w) \<Longrightarrow>
     oidc_step w (send (CallOther p) opts w)"
| oidc_outcome: "oidc_deliver i oc w = Some (w', sig) \<Longrightarrow> oidc_step w w'"

inductive oidc_reachable :: "world \<Rightarrow> bool" where
  oidc_mounted: "oidc_reachable (oidc_initialize oidc_world)"
| oidc_next: "oidc_reachable w \<Longrightarrow> oidc_step w w' \<Longrightarrow> oidc_reachable w'"

subsection \<open>The two copies do the same\<close>

lemma oidc_same:
  "oidc_world = world_init" "oidc_accept_start = accept_start" "oidc_accept_fail = accept_fail"
  "oidc_accept_done = accept_done" "oidc_expire = expire" "oidc_initialize = initialize"
  "oidc_init_finish = init_finish" "oidc_logout = logout"
  by (simp_all add: oidc_world_def world_init_def oidc_init_def auth_init_def fun_eq_iff
      oidc_accept_start_def accept_start_def oidc_accept_fail_def accept_fail_def
      oidc_accept_done_def accept_done_def oidc_expire_def expire_def oidc_initialize_def initialize_def
      oidc_init_finish_def init_finish_def oidc_logout_def logout_def)

lemma oidc_settle_same:
  "oidc_settle_meta = settle_meta" "oidc_settle_session = settle_session"
  "oidc_settle_init_context = settle_init_context" "oidc_settle_logout = settle_logout"
  "oidc_expiry_handler = expiry_handler"
proof -
  have fail: "oidc_init_fail = init_fail"
    by (intro ext) (unfold oidc_init_fail_def init_fail_def oidc_same, rule refl)
  have advance: "oidc_init_advance = init_advance"
    by (intro ext) (unfold oidc_init_advance_def init_advance_def oidc_same, rule refl)
  show "oidc_settle_meta = settle_meta"
    by (intro ext) (unfold oidc_settle_meta_def settle_meta_def fail advance, rule refl)
  show "oidc_settle_session = settle_session"
    by (intro ext) (unfold oidc_settle_session_def settle_session_def fail advance, rule refl)
  show "oidc_settle_init_context = settle_init_context"
    by (intro ext) (unfold oidc_settle_init_context_def settle_init_context_def fail oidc_same, rule refl)
  show "oidc_settle_logout = settle_logout"
    by (intro ext) (unfold oidc_settle_logout_def settle_logout_def oidc_same, rule refl)
  show "oidc_expiry_handler = expiry_handler"
    by (intro ext) (unfold oidc_expiry_handler_def expiry_handler_def oidc_same, rule refl)
qed

lemma oidc_context_same: "oidc_context a = without_login (auth_context a)" "oidc_useAuth = useAuth"
  by (simp_all add: oidc_context_def auth_context_def without_login_def authenticated_def oidc_same)
    (simp_all add: fun_eq_iff oidc_can_def can_def oidc_useAuth_def useAuth_def)

lemma oidc_react_refines: "oidc_react c res w = Some x \<Longrightarrow> react c res w = Some x"
  by (cases c) (simp_all add: oidc_settle_same)

lemma oidc_deliver_refines: "oidc_deliver i oc w = Some x \<Longrightarrow> deliver i oc w = Some x"
  by (auto simp: oidc_deliver_def deliver_def oidc_settle_same Let_def dest: oidc_react_refines
      split: option.splits prod.splits)

lemma oidc_step_refines: "oidc_step w w' \<Longrightarrow> auth_step w w'"
  by (induction rule: oidc_step.induct)
    (auto simp: oidc_same intro: auth_step.intros dest: oidc_deliver_refines)

subsection \<open>No login is ever in flight\<close>

definition no_login :: "world \<Rightarrow> bool" where
  "no_login w \<longleftrightarrow> (\<forall>c \<in># bag w. \<not> is_login c)"

lemma react_no_login:
  assumes "react c res w = Some (w', sig)" "\<not> is_login c" "no_login w"
  shows "no_login w'"
  using assms
  by (cases c)
    (auto simp: no_login_def settle_meta_def settle_session_def settle_init_context_def settle_logout_def
      bag_init_advance awaited_context_def Let_def
      split: sum.splits cause.splits option.splits if_splits prod.splits)

lemma oidc_step_no_login:
  assumes "oidc_step w w'" "ids_ok w" "no_login w"
  shows "no_login w'"
  using assms
proof (cases rule: oidc_step.cases)
  case oidc_retry
  with assms(3) show ?thesis
    by (auto simp: no_login_def oidc_same initialize_def Let_def split: option.splits prod.splits)
next
  case oidc_click_logout
  with assms(3) show ?thesis by (auto simp: no_login_def oidc_same logout_def)
next
  case (oidc_module_request p opts)
  with assms(3) show ?thesis by (auto simp: no_login_def)
next
  case (oidc_outcome i oc sig)
  from oidc_deliver_refines [OF oidc_outcome] assms(2) show ?thesis
  proof (rule deliver_cases)
    fix c rq res w1
    assume b: "bag w = add_mset c (bag w1)" and r: "react c res w1 = Some (w', sig)"
    have "\<not> is_login c" "no_login w1"
      using assms(3) by (simp_all add: b no_login_def)
    with r show ?thesis by (rule react_no_login)
  qed
qed

text \<open>Conversely, with no login in flight the variant reacts wherever the local store does.\<close>

lemma oidc_react_complete: "\<not> is_login c \<Longrightarrow> oidc_react c res w = react c res w"
  by (cases c) (simp_all add: oidc_settle_same)

lemma oidc_deliver_complete:
  assumes "no_login w"
  shows "oidc_deliver i oc w = deliver i oc w"
proof -
  have "\<not> is_login c" if "map_of (pending w) i = Some (c, rq)" for c rq
    using map_of_SomeD [OF that] assms by (force simp: no_login_def bag_def)
  then show ?thesis
    by (auto simp: oidc_deliver_def deliver_def oidc_settle_same oidc_react_complete Let_def
        split: option.split prod.split)
qed

lemma oidc_step_complete:
  assumes "auth_step w w'" "no_login w" "no_login w'"
  shows "oidc_step w w'"
  using assms
proof (cases rule: auth_step.cases)
  case (submit_login username password)
  with assms(3) show ?thesis by (simp add: no_login_def login_def)
next
  case (outcome i oc sig)
  with assms(2) show ?thesis by (metis oidc_deliver_complete oidc_outcome)
qed (auto intro: oidc_step.intros simp flip: oidc_same)

interpretation oi: invariant_system "oidc_initialize oidc_world" oidc_step
  "\<lambda>w. auth_reachable w \<and> no_login w"
proof unfold_locales
  show "auth_reachable (oidc_initialize oidc_world) \<and> no_login (oidc_initialize oidc_world)"
    unfolding oidc_same no_login_def using auth_reachable.mounted by (auto simp: auth_eval bag_def)
next
  fix w w' assume "oidc_step w w'" and "auth_reachable w \<and> no_login w"
  then show "auth_reachable w' \<and> no_login w'"
    using oidc_step_refines oidc_step_no_login auth_reachable_inv by (blast intro: auth_reachable.step)
qed

lemma oidc_reachable_steps: "oidc_reachable w \<Longrightarrow> rtranclp oidc_step (oidc_initialize oidc_world) w"
  by (induction rule: oidc_reachable.induct) auto

text \<open>
  C24.  The OIDC store is the local store without the login.  Every world it reaches is one the
  local store reaches, so the invariants of the local store hold for it, and no login request is
  ever in flight there.  Its steps from such a world are exactly the steps of the local store that
  start no login, and its consumers see the same value without \<open>login\<close>: the second copy of the code has no behaviour
  of its own and lacks none.
\<close>

theorem oidc_refines_local:
  assumes "oidc_reachable w"
  shows "auth_reachable w \<and> no_login w \<and> (\<forall>w'. oidc_step w w' \<longleftrightarrow> auth_step w w' \<and> no_login w') \<and>
    oidc_context (auth w) = without_login (auth_context (auth w))"
proof -
  have w: "auth_reachable w" "no_login w"
    using oi.reach_inv [OF oidc_reachable_steps [OF assms]] by simp_all
  then have "oidc_step w w' \<longleftrightarrow> auth_step w w' \<and> no_login w'" for w'
    using oidc_step_refines oidc_step_no_login oidc_step_complete auth_reachable_inv by blast
  with w show ?thesis by (simp add: oidc_context_same)
qed

theorem oidc_refines_local_witness:
  "auth_reachable (oidc_initialize oidc_world) \<and> no_login (oidc_initialize oidc_world) \<and>
   (\<forall>w'. oidc_step (oidc_initialize oidc_world) w' \<longleftrightarrow>
      auth_step (oidc_initialize oidc_world) w' \<and> no_login w')"
  using oidc_refines_local [OF oidc_mounted] by blast

end
