(* ===== verification/Routes_Login.thy ===== *)
theory Routes_Login
  imports Module_Resolution Auth_Properties
begin

section \<open>Routing and the login form: \<open>App.tsx\<close>, \<open>views/LoginView.tsx\<close>\<close>

text \<open>
  \<open>render\<close> gives what the route elements of \<open>App.tsx\<close> put on the screen for a location, or the
  redirect they ask for; \<open>None\<close> is the URIError that \<open>encodeURIComponent\<close> raises on a lone
  surrogate.  Which route matches a path is decided by the router package, which is a parameter:
  \<open>matcher\<close> maps the module routes and a path to one of the routes of the table.  \<open>matcher_ok\<close>
  states what is documented of it and used here: a matched module route is one of the routes
  given, and the paths \<open>/\<close> and \<open>/login\<close> match the index and the login route.
\<close>

record location =
  pathname :: jstr
  loc_search :: jstr
  loc_hash :: jstr

datatype target = LoginTarget | IndexTarget | ModuleTarget resolved_module | CatchAllTarget

type_synonym matcher = "resolved_module list \<Rightarrow> jstr \<Rightarrow> target"

definition matcher_ok :: "matcher \<Rightarrow> bool" where
  "matcher_ok match \<longleftrightarrow>
     (\<forall>ms p m. match ms p = ModuleTarget m \<longrightarrow> m \<in> set ms) \<and>
     (\<forall>ms. match ms (lit ''/'') = IndexTarget) \<and>
     (\<forall>ms. match ms (lit ''/login'') = LoginTarget)"

datatype screen =
    LoadingScreen
  | InitErrorScreen jstr
  | LoginScreen
  | ShellScreen module_view
  | NoAvailableModules
  | Redirect jstr

definition location_text :: "location \<Rightarrow> jstr" where
  "location_text loc = pathname loc @ loc_search loc @ loc_hash loc"

definition RequireAuth :: "auth_state \<Rightarrow> location \<Rightarrow> screen \<Rightarrow> screen option" where
  "RequireAuth a loc inner =
     (if \<not> authenticated a
      then map_option (\<lambda>e. Redirect (lit ''/login?next='' @ e)) (encodeURIComponent (location_text loc))
      else Some inner)"

definition LoginRoute :: "auth_state \<Rightarrow> screen" where
  "LoginRoute a = (if authenticated a then Redirect (lit ''/'') else LoginScreen)"

definition index_element :: "resolved_module list \<Rightarrow> screen" where
  "index_element ms = (case ms of [] \<Rightarrow> NoAvailableModules | m # _ \<Rightarrow> Redirect (res_path m))"

definition AdminRoutes :: "matcher \<Rightarrow> resolved_module list \<Rightarrow> auth_state \<Rightarrow> location \<Rightarrow> screen option" where
  "AdminRoutes match ms a loc =
     (case match ms (pathname loc) of
        LoginTarget \<Rightarrow> Some (LoginRoute a)
      | IndexTarget \<Rightarrow> RequireAuth a loc (index_element ms)
      | ModuleTarget m \<Rightarrow> RequireAuth a loc (ShellScreen (mod_view m))
      | CatchAllTarget \<Rightarrow> Some (Redirect (lit ''/'')))"

definition SessionBoundary :: "auth_state \<Rightarrow> screen option \<Rightarrow> screen option" where
  "SessionBoundary a outlet =
     (if \<not> initialized a then Some LoadingScreen
      else if initializationError a \<noteq> [] then Some (InitErrorScreen (initializationError a))
      else outlet)"

definition render :: "matcher \<Rightarrow> admin_module list \<Rightarrow> auth_state \<Rightarrow> location \<Rightarrow> screen option" where
  "render match selected a loc =
     SessionBoundary a (AdminRoutes match (useAdminModules selected a) a loc)"

text \<open>The location a relative URL leads to: the fragment starts at the first \<open>#\<close>, the query at the
  first question mark before it.\<close>

definition parse_location :: "jstr \<Rightarrow> location" where
  "parse_location u =
     (let p = takeWhile (\<lambda>c. c \<noteq> 35) u
      in \<lparr>pathname = takeWhile (\<lambda>c. c \<noteq> 63) p, loc_search = dropWhile (\<lambda>c. c \<noteq> 63) p,
          loc_hash = dropWhile (\<lambda>c. c \<noteq> 35) u\<rparr>)"

text \<open>\<open>Navigate\<close> with \<open>replace\<close>, followed up to a number of times.\<close>

fun follow :: "nat \<Rightarrow> (location \<Rightarrow> screen option) \<Rightarrow> location \<Rightarrow> (location \<times> screen) option" where
  "follow n view loc =
     (case view loc of
        None \<Rightarrow> None
      | Some (Redirect u) \<Rightarrow> (case n of 0 \<Rightarrow> None | Suc k \<Rightarrow> follow k view (parse_location u))
      | Some s \<Rightarrow> Some (loc, s))"

declare follow.simps [simp del]

subsection \<open>The login form\<close>

record login_form =
  username :: jstr
  password :: jstr
  form_error :: jstr

definition login_form_init :: login_form where
  "login_form_init = \<lparr>username = [], password = [], form_error = []\<rparr>"

definition canSubmit :: "auth_state \<Rightarrow> login_form \<Rightarrow> bool" where
  "canSubmit a f \<longleftrightarrow> js_trim (username f) \<noteq> [] \<and> password f \<noteq> [] \<and> \<not> busy a"

definition login_failed_text :: jstr where
  "login_failed_text =
     [0x6682, 0x65F6, 0x65E0, 0x6CD5, 0x767B, 0x5F55, 0xFF0C, 0x8BF7, 0x7A0D, 0x540E,
      0x91CD, 0x8BD5, 0x3002]"

text \<open>The first segment of \<open>submit\<close>: nothing unless the form can be submitted.\<close>

definition submit_login :: "login_form \<Rightarrow> world \<Rightarrow> login_form \<times> world" where
  "submit_login f w =
     (if canSubmit (auth w) f
      then (f\<lparr>form_error := []\<rparr>, login (username f) (password f) w)
      else (f, w))"

definition next_target :: "jstr \<Rightarrow> jstr" where
  "next_target search =
     (case params_get (search_params search) (lit ''next'') of
        None \<Rightarrow> lit ''/''
      | Some requested \<Rightarrow>
          if starts_with requested (lit ''/'') \<and> \<not> starts_with requested (lit ''//'')
          then requested else lit ''/'')"

text \<open>The second segment: navigate to the requested location, or show why the login failed.\<close>

definition submit_settled :: "location \<Rightarrow> signal \<Rightarrow> login_form \<Rightarrow> login_form \<times> jstr option" where
  "submit_settled loc sig f =
     (case sig of
        LoginResolved \<Rightarrow> (f, Some (next_target (loc_search loc)))
      | LoginRejected c \<Rightarrow> (f\<lparr>form_error := cause_message login_failed_text c\<rparr>, None)
      | _ \<Rightarrow> (f, None))"

text \<open>What the two login views show: the form with its error and its button, or the link to the
  identity provider.\<close>

record login_markup =
  product_name :: jval
  login_error :: "jstr option"
  login_disabled :: bool
  login_label :: jstr

definition LoginView :: "app_state \<Rightarrow> auth_state \<Rightarrow> login_form \<Rightarrow> login_markup" where
  "LoginView ap a f =
     \<lparr>product_name = context_name (app_context ap),
      login_error = (if form_error f = [] then None else Some (form_error f)),
      login_disabled = (\<not> canSubmit a f),
      login_label = (if busy a
        then [0x6B63, 0x5728, 0x767B, 0x5F55, 0x002E, 0x002E, 0x002E]
        else [0x767B, 0x5F55])\<rparr>"

record oidc_login_markup =
  oidc_product_name :: jval
  oidc_href :: jstr
  oidc_label :: jstr

definition OidcLoginView :: "app_state \<Rightarrow> oidc_login_markup" where
  "OidcLoginView ap =
     \<lparr>oidc_product_name = context_name (app_context ap), oidc_href = lit ''/api/auth/oidc/login'',
      oidc_label = [0x4F7F, 0x7528, 0x4F01, 0x4E1A, 0x8D26, 0x53F7, 0x767B, 0x5F55]\<rparr>"

subsection \<open>Access control\<close>

lemma RequireAuth_Shell: "RequireAuth a loc inner = Some (ShellScreen v) \<Longrightarrow> authenticated a \<and> inner = ShellScreen v"
  by (auto simp: RequireAuth_def split: if_splits)

lemma render_shell:
  assumes "matcher_ok match" and "render match selected a loc = Some (ShellScreen v)"
  shows "initialized a \<and> initializationError a = [] \<and> authenticated a \<and>
    (\<exists>m \<in> set selected. \<exists>d \<in> set (auth_modules a). mod_view m = v \<and> mod_id m = desc_id d \<and>
       (case requiredPermissions d of None \<Rightarrow> True | Some ps \<Rightarrow> \<forall>p \<in> set ps. can a p))"
proof -
  let ?ms = "useAdminModules selected a"
  from assms(2) have i: "initialized a" "initializationError a = []"
    and r: "AdminRoutes match ?ms a loc = Some (ShellScreen v)"
    by (auto simp: render_def SessionBoundary_def split: if_splits)
  from r obtain m where m: "match ?ms (pathname loc) = ModuleTarget m" "mod_view m = v"
      "authenticated a"
    by (auto simp: AdminRoutes_def LoginRoute_def index_element_def dest!: RequireAuth_Shell
        split: target.splits if_splits list.splits)
  with assms(1) have "m \<in> set ?ms"
    by (auto simp: matcher_ok_def)
  then obtain m' d where "m = resolved m' d" "m' \<in> set selected" "d \<in> set (auth_modules a)"
      "mod_id m' = desc_id d"
      "case requiredPermissions d of None \<Rightarrow> True | Some ps \<Rightarrow> set ps \<subseteq> auth_grants a"
    by (auto simp: useAdminModules_def resolve_set)
  moreover from this m(2) have "mod_view m' = v"
    by (simp add: resolved_def)
  ultimately show ?thesis
    using i m(3) by (fastforce simp: can_def subset_iff split: option.splits)
qed

text \<open>A router for the witnesses: exact match on the path.\<close>

definition exact_matcher :: matcher where
  "exact_matcher ms p =
     (if p = lit ''/login'' then LoginTarget else if p = lit ''/'' then IndexTarget
      else (case find (\<lambda>m. res_path m = p) ms of None \<Rightarrow> CatchAllTarget | Some m \<Rightarrow> ModuleTarget m))"

lemma exact_matcher_ok: "matcher_ok exact_matcher"
  by (auto simp: matcher_ok_def exact_matcher_def find_Some_iff split: option.splits if_splits)

definition sample_auth :: auth_state where
  "sample_auth = auth_init\<lparr>initialized := True,
     auth_actor := Some \<lparr>actor_id = lit ''a'', actor_type = lit ''human'', display_name = lit ''A'',
       actor_scope = \<lparr>scope_kind = lit ''w'', scope_id = lit ''d''\<rparr>\<rparr>,
     auth_modules := [\<lparr>desc_id = lit ''records'', desc_label = lit ''Records'', desc_path = lit ''/records'',
       desc_icon = lit ''database'', desc_order = 100, desc_permissions = None,
       requiredPermissions = Some [lit ''records.list'']\<rparr>],
     auth_grants := {lit ''records.list''}\<rparr>"

definition sample_location :: location where
  "sample_location = \<lparr>pathname = lit ''/records'', loc_search = lit ''?status=active'', loc_hash = []\<rparr>"

lemma sample_render: "render exact_matcher selectedAdminModules sample_auth sample_location = Some (ShellScreen RecordsView)"
  by (simp add: render_def SessionBoundary_def sample_auth_def sample_location_def auth_init_def AdminRoutes_def
      useAdminModules_def selectedAdminModules_def recordsModule_def resolveAdminModules_def hasDuplicateIDs_def
      resolve_one_def available_def permitted_def resolved_def exact_matcher_def RequireAuth_def authenticated_def)

subsection \<open>The requested location survives the login URL\<close>

lemma encoded_units:
  assumes "encodeURIComponent s = Some e"
  shows "35 \<notin> set e" "63 \<notin> set e" "search_params (lit ''?next='' @ e) = [(lit ''next'', s)]"
proof -
  obtain bs where bs: "e = map of_nat bs" "\<forall>b \<in> set bs. b = 37 \<or> uri_unescaped b" "form_decode bs = s"
    by (rule encodeURIComponent_bytes [OF assms])
  have asc: "\<forall>b \<in> set bs. b < 128"
    using bs(2) by (auto simp: uri_unescaped_def alnum_def)
  then have inj: "of_nat b = (of_nat c :: code_unit) \<Longrightarrow> c < 128 \<Longrightarrow> b \<in> set bs \<Longrightarrow> b = c" for b c
    by (metis unat_ascii)
  show "35 \<notin> set e"
    using bs(2) inj [of _ 35] by (force simp: bs(1) uri_unescaped_def alnum_def)
  show "63 \<notin> set e"
    using bs(2) inj [of _ 63] by (force simp: bs(1) uri_unescaped_def alnum_def)
  have l: "lit ''?next='' @ e = 63 # map of_nat ([110, 101, 120, 116, 61] @ bs)"
    by (simp add: lit_def bs(1))
  have "38 \<notin> set ([110, 101, 120, 116] @ 61 # bs)"
    using bs(2) by (auto simp: uri_unescaped_def alnum_def)
  moreover have "form_decode [110, 101, 120, 116] = lit ''next''"
    by (simp add: form_decode_def plus_to_space_def utf16_def lit_def)
  ultimately have "form_parse ([110, 101, 120, 116] @ 61 # bs) = [(lit ''next'', s)]"
    using form_pair_split [of "[110, 101, 120, 116]" bs]
    by (simp add: form_parse_def split_on_last bs(3))
  then have "form_parse ([110, 101, 120, 116, 61] @ bs) = [(lit ''next'', s)]"
    by simp
  moreover have asc': "\<forall>b \<in> set ([110, 101, 120, 116, 61] @ bs). b < 128"
    using asc by auto
  moreover have "search_params (63 # map of_nat ([110, 101, 120, 116, 61] @ bs)) = form_parse ([110, 101, 120, 116, 61] @ bs)"
    by (rule search_params_bytes [OF asc'])
  ultimately show "search_params (lit ''?next='' @ e) = [(lit ''next'', s)]"
    unfolding l by metis
qed

lemma login_url_location:
  assumes "encodeURIComponent s = Some e"
  shows "parse_location (lit ''/login?next='' @ e) =
    \<lparr>pathname = lit ''/login'', loc_search = lit ''?next='' @ e, loc_hash = []\<rparr>"
proof -
  have "takeWhile (\<lambda>c. c \<noteq> 35) (lit ''/login?next='' @ e) = lit ''/login?next='' @ e"
    using encoded_units(1) [OF assms] by (auto simp: takeWhile_eq_all_conv lit_def)
  moreover have "dropWhile (\<lambda>c. c \<noteq> 35) (lit ''/login?next='' @ e) = []"
    using encoded_units(1) [OF assms] by (auto simp: dropWhile_eq_Nil_conv lit_def)
  ultimately show ?thesis
    by (simp add: parse_location_def Let_def lit_def)
qed

text \<open>
  C26.  The login URL is lossless: when \<open>RequireAuth\<close> sends a visitor to the login form, the
  \<open>next\<close> parameter of that URL decodes to exactly the location asked for, path, query and
  fragment, whatever characters it has; a login that resolves then navigates there.  It applies
  to every local location, one that starts with a single slash.
\<close>

theorem login_url_round_trip:
  assumes "RequireAuth a loc inner = Some (Redirect u)" and "\<not> authenticated a"
    and "starts_with (location_text loc) (lit ''/'')" and "\<not> starts_with (location_text loc) (lit ''//'')"
  shows "pathname (parse_location u) = lit ''/login'' \<and>
    submit_settled (parse_location u) LoginResolved f = (f, Some (location_text loc))"
proof -
  obtain e where e: "encodeURIComponent (location_text loc) = Some e" "u = lit ''/login?next='' @ e"
    using assms(1,2) by (auto simp: RequireAuth_def)
  show ?thesis
    using assms(3,4) login_url_location [OF e(1)] encoded_units(3) [OF e(1)]
    by (simp add: e(2) submit_settled_def next_target_def params_get_def)
qed

theorem login_url_round_trip_witness:
  "\<exists>u. RequireAuth auth_init sample_location LoadingScreen = Some (Redirect u) \<and>
     next_target (loc_search (parse_location u)) = lit ''/records?status=active''"
proof -
  have t: "location_text sample_location = lit ''/records?status=active''"
    by (simp add: location_text_def sample_location_def lit_def)
  have "well_formed (lit ''/records?status=active'')"
    by (simp add: well_formed_def lit_def is_high_def is_low_def)
  then obtain e where "encodeURIComponent (location_text sample_location) = Some e"
    using encodeURIComponent_defined t by metis
  then have r: "RequireAuth auth_init sample_location LoadingScreen = Some (Redirect (lit ''/login?next='' @ e))"
    by (simp add: RequireAuth_def authenticated_def auth_init_def)
  show ?thesis
    using login_url_round_trip [OF r, of login_form_init] r
    by (auto simp: t authenticated_def auth_init_def starts_with_def lit_def submit_settled_def)
qed

subsection \<open>What a visitor without a session gets\<close>

lemma next_target_local:
  "starts_with (next_target q) (lit ''/'') \<and> \<not> starts_with (next_target q) (lit ''//'')"
  by (auto simp: next_target_def starts_with_def lit_def split: option.splits)

lemma matcher_okD:
  assumes "matcher_ok match"
  shows "match ms (lit ''/'') = IndexTarget" "match ms (lit ''/login'') = LoginTarget"
    "match ms p = ModuleTarget m \<Longrightarrow> m \<in> set ms"
  using assms by (auto simp: matcher_ok_def)

lemma follow_redirect:
  "view loc = Some (Redirect u) \<Longrightarrow> follow (Suc n) view loc = follow n view (parse_location u)"
  by (subst follow.simps) simp

lemma follow_screen:
  "view loc = Some s \<Longrightarrow> (\<And>u. s \<noteq> Redirect u) \<Longrightarrow> follow n view loc = Some (loc, s)"
  by (subst follow.simps) (simp split: screen.splits)

lemma encode_slash: "encodeURIComponent (lit ''/'') = Some (lit ''%2F'')"
  by (simp add: encodeURIComponent_def lit_def is_high_def is_low_def utf8_def uri_unescaped_def
      alnum_def encode_point_def pct_def upper_hex_def)

lemma render_signed_out:
  assumes "initialized a" "initializationError a = []" "\<not> authenticated a" "matcher_ok match"
  shows "render match selected a loc =
    (case match (useAdminModules selected a) (pathname loc) of
       LoginTarget \<Rightarrow> Some LoginScreen
     | CatchAllTarget \<Rightarrow> Some (Redirect (lit ''/''))
     | _ \<Rightarrow> map_option (\<lambda>e. Redirect (lit ''/login?next='' @ e)) (encodeURIComponent (location_text loc)))"
  using assms by (simp add: render_def SessionBoundary_def AdminRoutes_def LoginRoute_def RequireAuth_def
      split: target.splits)

lemma parse_slash: "parse_location (lit ''/'') = \<lparr>pathname = lit ''/'', loc_search = [], loc_hash = []\<rparr>"
  by (simp add: parse_location_def lit_def)

lemma login_page_stays:
  assumes "initialized a" "initializationError a = []" "\<not> authenticated a" "matcher_ok match"
    and "encodeURIComponent s = Some e"
  shows "follow n (render match selected a) (parse_location (lit ''/login?next='' @ e)) =
    Some (\<lparr>pathname = lit ''/login'', loc_search = lit ''?next='' @ e, loc_hash = []\<rparr>, LoginScreen)"
  using login_url_location [OF assms(5)]
  by (simp add: follow_screen render_signed_out [OF assms(1-4)] matcher_okD [OF assms(4)])

lemma root_leads_to_login:
  assumes "initialized a" "initializationError a = []" "\<not> authenticated a" "matcher_ok match"
  shows "follow (Suc n) (render match selected a) (parse_location (lit ''/'')) =
    Some (\<lparr>pathname = lit ''/login'', loc_search = lit ''?next=%2F'', loc_hash = []\<rparr>, LoginScreen)"
proof -
  have "render match selected a (parse_location (lit ''/'')) = Some (Redirect (lit ''/login?next='' @ lit ''%2F''))"
    by (simp add: render_signed_out [OF assms] parse_slash matcher_okD [OF assms(4)] location_text_def encode_slash)
  then show ?thesis
    using login_page_stays [OF assms encode_slash, of n selected]
    by (simp add: follow_redirect) (simp add: lit_def)
qed

lemma signed_out_follow:
  assumes "matcher_ok match" and "initialized a" and "initializationError a = []" and "\<not> authenticated a"
    and "encodeURIComponent (location_text loc) \<noteq> None"
  shows "\<exists>loc'. follow 2 (render match selected a) loc = Some (loc', LoginScreen)"
proof -
  note a = assms(2-4) assms(1)
  obtain e where e: "encodeURIComponent (location_text loc) = Some e"
    using assms(5) by blast
  show ?thesis
  proof (cases "match (useAdminModules selected a) (pathname loc)")
    case LoginTarget
    then show ?thesis
      using follow_screen [of "render match selected a" loc LoginScreen] by (simp add: render_signed_out [OF a])
  next
    case CatchAllTarget
    then show ?thesis
      using root_leads_to_login [OF a, of 0] follow_redirect [of "render match selected a" loc _ 1]
      by (simp add: render_signed_out [OF a] numeral_2_eq_2)
  qed (use login_page_stays [OF a e] follow_redirect [of "render match selected a" loc _ 1] e in
      \<open>auto simp: render_signed_out [OF a] numeral_2_eq_2\<close>)
qed

lemma render_signed_in:
  assumes "initialized a" "initializationError a = []" "authenticated a"
  shows "render match selected a loc =
    (case match (useAdminModules selected a) (pathname loc) of
       IndexTarget \<Rightarrow> Some (index_element (useAdminModules selected a))
     | ModuleTarget m \<Rightarrow> Some (ShellScreen (mod_view m))
     | _ \<Rightarrow> Some (Redirect (lit ''/'')))"
  using assms by (simp add: render_def SessionBoundary_def AdminRoutes_def LoginRoute_def RequireAuth_def
      split: target.splits)

text \<open>The first module's path leads to a module route; otherwise the index route would redirect
  to itself or to the login route without end.\<close>

definition first_route_ok :: "matcher \<Rightarrow> resolved_module list \<Rightarrow> bool" where
  "first_route_ok match ms \<longleftrightarrow>
     (case ms of [] \<Rightarrow> True | m # _ \<Rightarrow> \<exists>m'. match ms (pathname (parse_location (res_path m))) = ModuleTarget m')"

definition workspace_screen :: "screen \<Rightarrow> bool" where
  "workspace_screen s \<longleftrightarrow> s = NoAvailableModules \<or> (\<exists>v. s = ShellScreen v)"

lemma follow_workspace:
  "view loc = Some s \<Longrightarrow> workspace_screen s \<Longrightarrow> \<exists>loc' s'. follow n view loc = Some (loc', s') \<and> workspace_screen s'"
  using follow_screen [of view loc s n] by (auto simp: workspace_screen_def)

lemma index_follow:
  assumes "initialized a" "initializationError a = []" "authenticated a" "first_route_ok match (useAdminModules selected a)"
    and "match (useAdminModules selected a) (pathname loc) = IndexTarget"
  shows "\<exists>loc' s. follow (Suc n) (render match selected a) loc = Some (loc', s) \<and> workspace_screen s"
proof (cases "useAdminModules selected a")
  case Nil
  then have "render match selected a loc = Some NoAvailableModules"
    using assms(5) by (simp add: render_signed_in [OF assms(1-3)] index_element_def)
  then show ?thesis
    by (rule follow_workspace) (simp add: workspace_screen_def)
next
  case (Cons m ms)
  then have "render match selected a loc = Some (Redirect (res_path m))"
    using assms(5) by (simp add: render_signed_in [OF assms(1-3)] index_element_def)
  moreover obtain v where "render match selected a (parse_location (res_path m)) = Some (ShellScreen v)"
    using assms(4) by (auto simp: render_signed_in [OF assms(1-3)] first_route_ok_def Cons)
  ultimately show ?thesis
    using follow_workspace [of "render match selected a" "parse_location (res_path m)" "ShellScreen v" n]
    by (simp add: follow_redirect workspace_screen_def)
qed

lemma signed_in_follow:
  assumes "matcher_ok match" "initialized a" "initializationError a = []" "authenticated a"
    and "first_route_ok match (useAdminModules selected a)"
  shows "\<exists>loc' s. follow 2 (render match selected a) loc = Some (loc', s) \<and> workspace_screen s"
proof -
  note r = render_signed_in [OF assms(2-4), of match selected]
  have root: "\<exists>loc' s. follow (Suc 0) (render match selected a) (parse_location (lit ''/'')) = Some (loc', s) \<and> workspace_screen s"
    by (rule index_follow [OF assms(2-5)]) (simp add: parse_slash matcher_okD [OF assms(1)])
  show ?thesis
  proof (cases "match (useAdminModules selected a) (pathname loc)")
    case IndexTarget
    then show ?thesis
      using index_follow [OF assms(2-5), of loc "Suc 0"] by (simp add: numeral_2_eq_2)
  next
    case (ModuleTarget m)
    then show ?thesis
      using follow_workspace [of "render match selected a" loc "ShellScreen (mod_view m)"]
      by (simp add: r workspace_screen_def)
  qed (use root follow_redirect [of "render match selected a" loc _ "Suc 0"] in \<open>simp_all add: r numeral_2_eq_2\<close>)
qed

text \<open>
  C29.  Navigation always ends, and where it should: once initialization ended without an error,
  every location that \<open>encodeURIComponent\<close> accepts leads in at most two redirects to a screen.
  A visitor without a session gets the login form, and somebody who is signed in gets a module
  view or the notice that no module is available, provided the path of the first module matches a
  module route.
\<close>

theorem navigation_ends:
  assumes "matcher_ok match" and "initialized a" and "initializationError a = []"
    and "encodeURIComponent (location_text loc) \<noteq> None" and "first_route_ok match (useAdminModules selected a)"
  shows "\<exists>loc' s. follow 2 (render match selected a) loc = Some (loc', s) \<and>
    (if authenticated a then s = NoAvailableModules \<or> (\<exists>v. s = ShellScreen v) else s = LoginScreen)"
proof (cases "authenticated a")
  case True
  then show ?thesis
    using signed_in_follow [OF assms(1-3) _ assms(5)] by (simp add: workspace_screen_def)
next
  case False
  then show ?thesis
    using signed_out_follow [OF assms(1-3) _ assms(4)] by simp
qed

theorem navigation_ends_witness:
  "\<exists>loc' s. follow 2 (render exact_matcher selectedAdminModules sample_auth) (parse_location (lit ''/login'')) = Some (loc', s) \<and>
     (s = NoAvailableModules \<or> (\<exists>v. s = ShellScreen v))"
proof -
  have l: "location_text (parse_location (lit ''/login'')) = lit ''/login''"
    by (simp add: parse_location_def location_text_def lit_def)
  have e: "encodeURIComponent (location_text (parse_location (lit ''/login''))) \<noteq> None"
    unfolding l using encodeURIComponent_defined [of "lit ''/login''"] by simp
  have p: "pathname (parse_location (lit ''/records'')) = lit ''/records''"
    by (simp add: parse_location_def lit_def)
  have f: "first_route_ok exact_matcher (useAdminModules selectedAdminModules sample_auth)"
    by (simp add: first_route_ok_def sample_auth_def useAdminModules_def selectedAdminModules_def recordsModule_def
        resolveAdminModules_def hasDuplicateIDs_def resolve_one_def available_def permitted_def resolved_def
        exact_matcher_def p)
  show ?thesis
    using navigation_ends [OF exact_matcher_ok _ _ e f] by (simp add: sample_auth_def auth_init_def authenticated_def)
qed

definition signed_out_run :: "auth_event list" where
  "signed_out_run = [Outcome 0 (ok sample_meta_json), Outcome 1 unauthorized]"

lemma signed_out_run_result:
  "\<exists>w. auth_run signed_out_run (initialize world_init) = Some w \<and> ready w \<and> \<not> authenticated (auth w) \<and>
     \<not> busy (auth w) \<and> next_call w = 2"
proof -
  obtain e where "failure_of 401 (JObj []) = ApiCause e" "err_status e = 401"
    by (cases rule: failure_of_cases [of 401 "JObj []"]) auto
  then show ?thesis
    by (simp add: signed_out_run_def auth_eval ok_def unauthorized_def expire_def api_settle_not_ok exempt_paths_def
        run_handler_def empty_object_def)
qed

text \<open>
  C36.  The location a signed-out visitor asked for is not remembered: without an actor there are
  no module routes, so a path that is neither the root nor the login page falls to the catch-all
  route, which redirects to the root; the login URL then carries the root only, and a login that
  resolves goes to the root, not to the page asked for.
\<close>

theorem deep_link_forgotten:
  assumes "matcher_ok match" and "auth_reachable w" and "initialized (auth w)"
    and "initializationError (auth w) = []" and "\<not> authenticated (auth w)"
    and "match [] (pathname loc) \<notin> {LoginTarget, IndexTarget}"
  shows "\<exists>loc'. follow 2 (render match selected (auth w)) loc = Some (loc', LoginScreen) \<and>
    submit_settled loc' LoginResolved f = (f, Some (lit ''/''))"
proof -
  have "useAdminModules selected (auth w) = []"
    using auth_reachable_inv [OF assms(2)] assms(5) resolve_set [of selected "[]" "auth_grants (auth w)"]
    by (auto simp: inv_def cleared_ok_def useAdminModules_def)
  moreover have "match [] (pathname loc) = CatchAllTarget"
    using assms(6) matcher_okD(3) [OF assms(1), of "[]" "pathname loc"]
    by (cases "match [] (pathname loc)") auto
  ultimately have "render match selected (auth w) loc = Some (Redirect (lit ''/''))"
    by (simp add: render_signed_out [OF assms(3-5,1)])
  moreover have "search_params (lit ''?next=%2F'') = [(lit ''next'', lit ''/'')]"
    using encoded_units(3) [OF encode_slash] by (simp add: lit_def)
  ultimately show ?thesis
    using root_leads_to_login [OF assms(3-5,1), of 0] follow_redirect [of "render match selected (auth w)" loc _ 1]
    by (simp add: numeral_2_eq_2 submit_settled_def next_target_def params_get_def)
qed

theorem deep_link_forgotten_witness:
  "\<exists>w loc'. auth_run signed_out_run (initialize world_init) = Some w \<and>
     follow 2 (render exact_matcher selectedAdminModules (auth w)) sample_location = Some (loc', LoginScreen) \<and>
     submit_settled loc' LoginResolved login_form_init = (login_form_init, Some (lit ''/''))"
proof -
  obtain w where w: "auth_run signed_out_run (initialize world_init) = Some w"
      "initialized (auth w)" "initializationError (auth w) = []" "\<not> authenticated (auth w)"
    using signed_out_run_result unfolding ready_def by blast
  have "exact_matcher [] (pathname sample_location) \<notin> {LoginTarget, IndexTarget}"
    by (simp add: exact_matcher_def sample_location_def)
  then show ?thesis
    using deep_link_forgotten [OF exact_matcher_ok mounted_run_reachable [OF w(1)] w(2-4)] w(1) by blast
qed

end
