(* ===== verification/Latest_Request.thy ===== *)
theory Latest_Request
  imports Admin_Prelude
begin

section \<open>Request leases: \<open>components/admin/useLatestRequest.ts\<close>\<close>

text \<open>
  The hook keeps at most one live \<open>AbortController\<close> in a ref.  A controller is modelled by its
  identity, a natural number drawn from a counter; the set of aborted controllers is kept as the
  list of identities on which \<open>abort()\<close> has been called.  \<open>begin_request\<close> returns the lease of
  the new controller, \<open>is_current\<close> and \<open>release\<close> are its two closures.
\<close>

record lease_state =
  active :: "nat option"
  aborted :: "nat list"
  fresh :: nat

definition lease_init :: lease_state where
  "lease_init = \<lparr>active = None, aborted = [], fresh = 0\<rparr>"

definition cancel :: "lease_state \<Rightarrow> lease_state" where
  "cancel s =
     (case active s of
        None \<Rightarrow> s
      | Some c \<Rightarrow> s\<lparr>active := None, aborted := c # aborted s\<rparr>)"

definition begin_request :: "lease_state \<Rightarrow> nat \<times> lease_state" where
  "begin_request s =
     (let s' = cancel s; c = fresh s'
      in (c, s'\<lparr>active := Some c, fresh := Suc c\<rparr>))"

definition is_current :: "nat \<Rightarrow> lease_state \<Rightarrow> bool" where
  "is_current c s \<longleftrightarrow> active s = Some c \<and> c \<notin> set (aborted s)"

definition release :: "nat \<Rightarrow> lease_state \<Rightarrow> lease_state" where
  "release c s = (if active s = Some c then s\<lparr>active := None\<rparr> else s)"

text \<open>The hook's own effect: its clean-up, which runs when the component that uses the hook is
  unmounted, is \<open>cancel\<close>.\<close>

definition lease_unmount :: "lease_state \<Rightarrow> lease_state" where
  "lease_unmount s = cancel s"

lemma cancel_idempotent [simp]: "cancel (cancel s) = cancel s"
  by (simp add: cancel_def split: option.split)

definition lease_inv :: "lease_state \<Rightarrow> bool" where
  "lease_inv s \<longleftrightarrow>
     (\<forall>c \<in> set (aborted s). c < fresh s) \<and>
     (\<forall>c. active s = Some c \<longrightarrow> c < fresh s \<and> c \<notin> set (aborted s))"

subsection \<open>The contract of a lease\<close>

text \<open>
  What a view relies on when it guards its state updates by a lease: a new lease is current, at
  most one lease is current, beginning or cancelling ends every other lease, and a lease that was
  issued and is no longer current never becomes current again (\<open>issued\<close> says which identities
  have been handed out).
\<close>

locale request_lease =
  fixes inv :: "'s \<Rightarrow> bool"
    and start :: "'s \<Rightarrow> nat \<times> 's"
    and stop :: "'s \<Rightarrow> 's"
    and current :: "nat \<Rightarrow> 's \<Rightarrow> bool"
    and finish :: "nat \<Rightarrow> 's \<Rightarrow> 's"
    and issued :: "nat \<Rightarrow> 's \<Rightarrow> bool"
  assumes inv_start: "inv s \<Longrightarrow> inv (snd (start s))"
    and inv_stop: "inv s \<Longrightarrow> inv (stop s)"
    and inv_finish: "inv s \<Longrightarrow> inv (finish c s)"
    and current_start: "inv s \<Longrightarrow> current c (snd (start s)) \<longleftrightarrow> c = fst (start s)"
    and current_stop: "inv s \<Longrightarrow> \<not> current c (stop s)"
    and current_finish: "inv s \<Longrightarrow> current c (finish d s) \<longleftrightarrow> current c s \<and> c \<noteq> d"
    and issued_current: "inv s \<Longrightarrow> current c s \<Longrightarrow> issued c s"
    and issued_start: "inv s \<Longrightarrow> issued c (snd (start s)) \<longleftrightarrow> issued c s \<or> c = fst (start s)"
    and issued_stop: "inv s \<Longrightarrow> issued c (stop s) \<longleftrightarrow> issued c s"
    and issued_finish: "inv s \<Longrightarrow> issued c (finish d s) \<longleftrightarrow> issued c s"
    and start_unissued: "inv s \<Longrightarrow> \<not> issued (fst (start s)) s"
begin

lemma start_ends_others:
  "inv s \<Longrightarrow> issued c s \<Longrightarrow> \<not> current c (snd (start s))"
  by (metis current_start start_unissued)

lemma stale_start: "inv s \<Longrightarrow> issued c s \<Longrightarrow> \<not> current c s \<Longrightarrow>
    issued c (snd (start s)) \<and> \<not> current c (snd (start s))"
  by (simp add: issued_start start_ends_others)

lemma stale_stop: "inv s \<Longrightarrow> issued c s \<Longrightarrow> issued c (stop s) \<and> \<not> current c (stop s)"
  by (simp add: issued_stop current_stop)

lemma stale_finish: "inv s \<Longrightarrow> issued c s \<Longrightarrow> \<not> current c s \<Longrightarrow>
    issued c (finish d s) \<and> \<not> current c (finish d s)"
  by (simp add: issued_finish current_finish)

end

subsection \<open>The hook satisfies the contract\<close>

lemma lease_inv_init: "lease_inv lease_init"
  by (simp add: lease_inv_def lease_init_def)

lemma lease_inv_cancel [inv_intros]: "lease_inv s \<Longrightarrow> lease_inv (cancel s)"
  by (auto simp: lease_inv_def cancel_def split: option.splits)

lemma lease_inv_begin [inv_intros]: "lease_inv s \<Longrightarrow> lease_inv (snd (begin_request s))"
  using lease_inv_cancel [of s]
  by (auto simp: lease_inv_def begin_request_def Let_def less_Suc_eq)

lemma lease_inv_release [inv_intros]: "lease_inv s \<Longrightarrow> lease_inv (release c s)"
  by (auto simp: lease_inv_def release_def)

lemma fresh_cancel [simp]: "fresh (cancel s) = fresh s"
  by (simp add: cancel_def split: option.split)

lemma fst_begin_request [simp]: "fst (begin_request s) = fresh s"
  by (simp add: begin_request_def Let_def)

lemma active_cancel [simp]: "active (cancel s) = None"
  by (simp add: cancel_def split: option.split)

lemma active_begin [simp]: "active (snd (begin_request s)) = Some (fresh s)"
  by (simp add: begin_request_def Let_def)

lemma fresh_begin [simp]: "fresh (snd (begin_request s)) = Suc (fresh s)"
  by (simp add: begin_request_def Let_def)

lemma is_current_iff_active: "lease_inv s \<Longrightarrow> is_current c s \<longleftrightarrow> active s = Some c"
  by (auto simp: lease_inv_def is_current_def)

interpretation lr: request_lease lease_inv begin_request cancel is_current release
    "\<lambda>c s. c < fresh s"
proof (unfold_locales, goal_cases)
  case (1 s) then show ?case by (rule lease_inv_begin)
next
  case (2 s) then show ?case by (rule lease_inv_cancel)
next
  case (3 s c) then show ?case by (rule lease_inv_release)
next
  case (4 s c)
  then show ?case by (auto simp: is_current_iff_active lease_inv_begin)
next
  case (5 s c)
  then show ?case by (simp add: is_current_iff_active lease_inv_cancel)
next
  case (6 s c d)
  then show ?case
    using lease_inv_release [of s d] by (auto simp: is_current_iff_active release_def split: if_splits)
next
  case (7 s c)
  then show ?case by (auto simp: lease_inv_def is_current_def)
qed (auto simp: release_def)

subsection \<open>Operations as a sequence\<close>

text \<open>Any interleaving of the hook's operations, as the views and React's clean-up issue them.\<close>

datatype lease_op = Begin | Cancel | Release nat

fun lease_step :: "lease_op \<Rightarrow> lease_state \<Rightarrow> lease_state" where
  "lease_step Begin s = snd (begin_request s)"
| "lease_step Cancel s = cancel s"
| "lease_step (Release c) s = release c s"

lemma lease_inv_step: "lease_inv s \<Longrightarrow> lease_inv (lease_step x s)"
  by (cases x) (simp_all add: lease_inv_begin lease_inv_cancel lease_inv_release)

lemma stale_step:
  assumes "lease_inv s" "c < fresh s" "\<not> is_current c s"
  shows "c < fresh (lease_step x s) \<and> \<not> is_current c (lease_step x s)"
  using assms lr.stale_start [of s c] lr.stale_stop [of s c] lr.stale_finish [of s c]
  by (cases x) auto

text \<open>
  C12.  Once a newer request has begun, an older lease never becomes current again, whatever the
  views and the clean-up functions do afterwards: the response of a superseded request can never
  be taken for the latest one.
\<close>

theorem superseded_lease_stays_stale:
  assumes "lease_inv s" and "begin_request s = (c, s')"
  shows "\<not> is_current c (fold lease_step xs (snd (begin_request s')))"
proof -
  have inv: "lease_inv s'" and c: "c < fresh s'"
    using assms lease_inv_begin [of s] fst_begin_request [of s] fresh_begin [of s] by auto
  have "c < fresh s \<and> \<not> is_current c s \<Longrightarrow> lease_inv s \<Longrightarrow>
      \<not> is_current c (fold lease_step xs s)" for s
    by (induction xs arbitrary: s) (simp_all add: lease_inv_step stale_step)
  moreover have "c < fresh (snd (begin_request s'))" "\<not> is_current c (snd (begin_request s'))"
    using inv c lr.start_ends_others by auto
  ultimately show ?thesis
    using inv lease_inv_begin by blast
qed

theorem superseded_lease_stays_stale_witness:
  "\<not> is_current 0 (fold lease_step [Release 1, Begin, Cancel]
      (snd (begin_request (snd (begin_request lease_init)))))"
  by (rule superseded_lease_stays_stale [OF lease_inv_init])
    (simp add: begin_request_def lease_init_def cancel_def)

end
