(* ===== verification/Paged_View.thy ===== *)
theory Paged_View
  imports Api_Client Latest_Request Admin_Parts
begin

section \<open>What the two table views share\<close>

text \<open>
  \<open>TasksView\<close> and \<open>AuditView\<close> have the same loading and paging code, over different rows, paths
  and filters.  This theory models that code once: \<open>'f\<close> is the type of the filters (none for the
  audit log) and \<open>'r\<close> of the rows; the path a query is sent to and the reader of a page are
  arguments.  The state has the React state of the view, the lease of its request hook, the
  zero-delay timer its effect armed, with the cursor and filters its closure captured, and the
  requests in flight, each with the lease and the path it was issued with.

  An event handler, the render it causes and the effect that render runs are one step.  The
  callback \<open>load\<close> changes identity when \<open>before\<close> or \<open>filters\<close> change, and the effect then cleans up
  and arms a new timer: \<open>rerun_effect\<close>.
\<close>

record load_failure =
  fail_message :: jstr
  fail_status :: "nat option"

record ('f, 'r) paged =
  rows :: "'r list"
  next_before_id :: "jstr option"
  loading :: bool
  failure :: "load_failure option"
  filters :: 'f
  before :: jstr
  history :: "jstr list"
  lease :: lease_state
  timer :: "(jstr \<times> 'f) option"
  in_flight :: "(nat \<times> jstr) list"

definition page_load :: "('f \<Rightarrow> jstr \<Rightarrow> jstr) \<Rightarrow> jstr \<Rightarrow> 'f \<Rightarrow> ('f, 'r, 'm) paged_scheme \<Rightarrow> ('f, 'r, 'm) paged_scheme" where
  "page_load path b f v =
     (let (c, l) = begin_request (lease v)
      in v\<lparr>lease := l, loading := True, failure := None, in_flight := in_flight v @ [(c, path f b)]\<rparr>)"

definition arm_timer :: "('f, 'r, 'm) paged_scheme \<Rightarrow> ('f, 'r, 'm) paged_scheme" where
  "arm_timer v = v\<lparr>timer := Some (before v, filters v)\<rparr>"

definition cleanup_effect :: "('f, 'r, 'm) paged_scheme \<Rightarrow> ('f, 'r, 'm) paged_scheme" where
  "cleanup_effect v = v\<lparr>timer := None, lease := cancel (lease v)\<rparr>"

text \<open>Unmounting runs the clean-ups in the order of the effects, that of the request hook first.\<close>

definition page_unmount :: "('f, 'r, 'm) paged_scheme \<Rightarrow> ('f, 'r, 'm) paged_scheme" where
  "page_unmount v = cleanup_effect (v\<lparr>lease := lease_unmount (lease v)\<rparr>)"

lemma page_unmount_cleanup: "page_unmount v = cleanup_effect v"
  by (simp add: page_unmount_def cleanup_effect_def lease_unmount_def)

definition rerun_effect :: "('f, 'r, 'm) paged_scheme \<Rightarrow> ('f, 'r, 'm) paged_scheme" where
  "rerun_effect v = arm_timer (cleanup_effect v)"

definition fire_timer :: "('f \<Rightarrow> jstr \<Rightarrow> jstr) \<Rightarrow> ('f, 'r, 'm) paged_scheme \<Rightarrow> ('f, 'r, 'm) paged_scheme" where
  "fire_timer path v =
     (case timer v of None \<Rightarrow> v | Some (b, f) \<Rightarrow> page_load path b f (v\<lparr>timer := None\<rparr>))"

text \<open>The cursor: \<open>setBefore\<close> re-runs the effect only when the value changes.\<close>

definition set_cursor :: "jstr \<Rightarrow> jstr list \<Rightarrow> ('f, 'r, 'm) paged_scheme \<Rightarrow> ('f, 'r, 'm) paged_scheme" where
  "set_cursor b h v =
     (let v' = v\<lparr>before := b, history := h\<rparr> in if b = before v then v' else rerun_effect v')"

definition next_page :: "('f, 'r, 'm) paged_scheme \<Rightarrow> ('f, 'r, 'm) paged_scheme" where
  "next_page v =
     (case next_before_id v of
        None \<Rightarrow> v
      | Some n \<Rightarrow> if n = [] then v else set_cursor n (history v @ [before v]) v)"

definition previous_page :: "('f, 'r, 'm) paged_scheme \<Rightarrow> ('f, 'r, 'm) paged_scheme" where
  "previous_page v =
     (if history v = [] then set_cursor [] [] v
      else set_cursor (last (history v)) (butlast (history v)) v)"

text \<open>How the request of a lease settles.  A page the reader rejects is not of the declared type
  and outside the model.\<close>

definition load_failed :: "jstr \<Rightarrow> cause \<Rightarrow> load_failure" where
  "load_failed fallback c =
     (case c of
        ApiCause e \<Rightarrow> \<lparr>fail_message = err_message e, fail_status = Some (err_status e)\<rparr>
      | _ \<Rightarrow> \<lparr>fail_message = fallback, fail_status = None\<rparr>)"

definition page_settle ::
    "(jval \<Rightarrow> ('r list \<times> jstr option) option) \<Rightarrow> jstr \<Rightarrow> nat \<Rightarrow> fetch_outcome \<Rightarrow>
     ('f, 'r, 'm) paged_scheme \<Rightarrow> ('f, 'r, 'm) paged_scheme option" where
  "page_settle reader fallback c oc v =
     (case map_of (in_flight v) c of
        None \<Rightarrow> None
      | Some path \<Rightarrow>
          (let v1 = v\<lparr>in_flight := filter (\<lambda>p. fst p \<noteq> c) (in_flight v)\<rparr>;
               conclude = (\<lambda>u. if is_current c (lease u)
                           then u\<lparr>loading := False, lease := release c (lease u)\<rparr> else u)
           in case api_result path oc of
                Inr payload \<Rightarrow>
                  map_option (\<lambda>(rs, n). conclude (if is_current c (lease v1)
                      then v1\<lparr>rows := rs, next_before_id := n\<rparr> else v1)) (reader payload)
              | Inl cause \<Rightarrow>
                  Some (if \<not> is_current c (lease v1) then conclude v1
                        else conclude (v1\<lparr>failure := Some (load_failed fallback cause)\<rparr>))))"

text \<open>What is on the screen: the states of \<open>components/admin/States.tsx\<close>, or the table with its
  pagination, whose buttons are enabled as \<open>components/admin/Pagination.tsx\<close> says.\<close>

datatype page_panel = LoadingView | ForbiddenView jstr | ErrorView jstr | EmptyView | TableView

definition page_display :: "('f, 'r, 'm) paged_scheme \<Rightarrow> page_panel" where
  "page_display v =
     (if loading v \<and> rows v = [] then LoadingView
      else (case failure v of
              Some e \<Rightarrow> if fail_status e = Some 403 then ForbiddenView (fail_message e) else ErrorView (fail_message e)
            | None \<Rightarrow> if rows v = [] then EmptyView else TableView))"

definition page_pagination :: "('f, 'r, 'm) paged_scheme \<Rightarrow> pagination option" where
  "page_pagination v =
     (if page_display v = TableView
      then Pagination (history v \<noteq> []) (case next_before_id v of None \<Rightarrow> False | Some n \<Rightarrow> n \<noteq> []) (loading v)
      else None)"

text \<open>The body of the page: a state panel, or the table with its rows and its pagination.\<close>

datatype paged_body =
    StateBody state_panel
  | TableBody "jstr \<times> (nat \<times> jstr) list" "jstr list list" "pagination option"

record paged_texts =
  loading_label :: jstr
  empty_title :: jstr
  empty_message :: jstr
  table_label :: jstr
  table_headings :: "jstr list"

definition page_body :: "paged_texts \<Rightarrow> ('r \<Rightarrow> jstr list) \<Rightarrow> ('f, 'r, 'm) paged_scheme \<Rightarrow> paged_body" where
  "page_body ts row v =
     (case page_display v of
        LoadingView \<Rightarrow> StateBody (LoadingState (loading_label ts))
      | ForbiddenView m \<Rightarrow> StateBody (ForbiddenState m)
      | ErrorView m \<Rightarrow> StateBody (ErrorState m)
      | EmptyView \<Rightarrow> StateBody (EmptyState (empty_title ts) (empty_message ts))
      | TableView \<Rightarrow> TableBody (DataTable (table_label ts) (table_headings ts)) (map row (rows v)) (page_pagination v))"

definition can_previous :: "('f, 'r, 'm) paged_scheme \<Rightarrow> bool" where
  "can_previous v \<longleftrightarrow> (case page_pagination v of None \<Rightarrow> False | Some p \<Rightarrow> previous_enabled p)"

definition can_next :: "('f, 'r, 'm) paged_scheme \<Rightarrow> bool" where
  "can_next v \<longleftrightarrow> (case page_pagination v of None \<Rightarrow> False | Some p \<Rightarrow> next_enabled p)"

definition can_retry :: "('f, 'r, 'm) paged_scheme \<Rightarrow> bool" where
  "can_retry v \<longleftrightarrow> (case page_display v of ErrorView m \<Rightarrow> True | _ \<Rightarrow> False)"

subsection \<open>The invariant\<close>

definition cursor_ok :: "jstr \<Rightarrow> jstr list \<Rightarrow> bool" where
  "cursor_ok b h \<longleftrightarrow> (\<exists>cs. h @ [b] = [] # cs \<and> [] \<notin> set cs)"

definition paged_inv :: "('f \<Rightarrow> jstr \<Rightarrow> jstr) \<Rightarrow> ('f, 'r, 'm) paged_scheme \<Rightarrow> bool" where
  "paged_inv path v \<longleftrightarrow>
     lease_inv (lease v) \<and>
     distinct (map fst (in_flight v)) \<and> (\<forall>p \<in> set (in_flight v). fst p < fresh (lease v)) \<and>
     (\<forall>b f. timer v = Some (b, f) \<longrightarrow> b = before v \<and> f = filters v) \<and>
     (\<forall>c. active (lease v) = Some c \<longrightarrow> (c, path (filters v) (before v)) \<in> set (in_flight v) \<and> loading v) \<and>
     (loading v \<longrightarrow> timer v \<noteq> None \<or> active (lease v) \<noteq> None) \<and>
     cursor_ok (before v) (history v)"

lemma cursor_ok_first: "cursor_ok [] []"
  by (simp add: cursor_ok_def)

lemma cursor_ok_next: "cursor_ok b h \<Longrightarrow> n \<noteq> [] \<Longrightarrow> cursor_ok n (h @ [b])"
  unfolding cursor_ok_def by (metis append_Cons set_append Un_iff empty_iff insert_iff list.set)

lemma cursor_ok_previous:
  assumes "cursor_ok b h" "h \<noteq> []"
  shows "cursor_ok (last h) (butlast h)"
proof -
  obtain cs where "h @ [b] = [] # cs" "[] \<notin> set cs"
    using assms(1) by (auto simp: cursor_ok_def)
  then have "h = [] # butlast cs" "[] \<notin> set (butlast cs)"
    using assms(2) by (auto simp: append_eq_Cons_conv dest: in_set_butlastD)
  then show ?thesis
    using assms(2) unfolding cursor_ok_def by (metis append_butlast_last_id)
qed

lemma cursor_ok_start: "cursor_ok b h \<Longrightarrow> h = [] \<longleftrightarrow> b = []"
  unfolding cursor_ok_def by (cases h) (auto simp: Cons_eq_append_conv)

lemma paged_invD:
  assumes "paged_inv path v"
  shows "lease_inv (lease v)" "distinct (map fst (in_flight v))" "\<forall>p \<in> set (in_flight v). fst p < fresh (lease v)"
    "timer v = Some (b, f) \<Longrightarrow> b = before v \<and> f = filters v"
    "active (lease v) = Some c \<Longrightarrow> (c, path (filters v) (before v)) \<in> set (in_flight v) \<and> loading v"
    "loading v \<Longrightarrow> timer v \<noteq> None \<or> active (lease v) \<noteq> None" "cursor_ok (before v) (history v)"
  using assms unfolding paged_inv_def by blast+

lemma paged_inv_load [inv_intros]:
  assumes "paged_inv path v"
  shows "paged_inv path (page_load path (before v) (filters v) v)"
proof -
  have "page_load path (before v) (filters v) v = v\<lparr>lease := snd (begin_request (lease v)), loading := True,
      failure := None, in_flight := in_flight v @ [(fresh (lease v), path (filters v) (before v))]\<rparr>"
    by (simp add: page_load_def split_beta)
  then show ?thesis
    using paged_invD [OF assms] by (auto simp: paged_inv_def lease_inv_begin less_Suc_eq)
qed

lemma paged_inv_fire [inv_intros]:
  assumes "paged_inv path v"
  shows "paged_inv path (fire_timer path v)"
proof (cases "timer v")
  case None
  then show ?thesis by (simp add: fire_timer_def assms)
next
  case (Some p)
  have "fire_timer path v = (page_load path (before v) (filters v) v)\<lparr>timer := None\<rparr>"
    using Some paged_invD(4) [OF assms, of "fst p" "snd p"]
    by (simp add: fire_timer_def page_load_def split_beta)
  moreover have "active (lease (page_load path (before v) (filters v) v)) \<noteq> None"
    by (simp add: page_load_def split_beta)
  ultimately show ?thesis
    using paged_inv_load [OF assms] by (simp add: paged_inv_def)
qed

lemma paged_inv_rerun:
  assumes "lease_inv (lease v)" "distinct (map fst (in_flight v))" "\<forall>p \<in> set (in_flight v). fst p < fresh (lease v)"
    and "cursor_ok (before v) (history v)"
  shows "paged_inv path (rerun_effect v)"
  using assms by (simp add: paged_inv_def rerun_effect_def arm_timer_def cleanup_effect_def lease_inv_cancel)

lemma paged_inv_set_cursor:
  assumes "paged_inv path v" "cursor_ok b h"
  shows "paged_inv path (set_cursor b h v)"
proof (cases "b = before v")
  case True
  then show ?thesis
    using assms by (simp add: set_cursor_def paged_inv_def)
next
  case False
  then show ?thesis
    using paged_inv_rerun [of "v\<lparr>before := b, history := h\<rparr>" path] paged_invD [OF assms(1)] assms(2)
    by (simp add: set_cursor_def)
qed

lemma paged_inv_next [inv_intros]: "paged_inv path v \<Longrightarrow> paged_inv path (next_page v)"
  by (auto simp: next_page_def intro!: paged_inv_set_cursor cursor_ok_next paged_invD(7) split: option.split)

lemma paged_inv_previous [inv_intros]: "paged_inv path v \<Longrightarrow> paged_inv path (previous_page v)"
  by (auto simp: previous_page_def intro!: paged_inv_set_cursor cursor_ok_previous cursor_ok_first paged_invD(7))

lemma page_settle_stale:
  assumes "page_settle reader fallback c oc v = Some v'" "\<not> is_current c (lease v)"
  shows "v' = v\<lparr>in_flight := filter (\<lambda>p. fst p \<noteq> c) (in_flight v)\<rparr>"
  using assms by (auto simp: page_settle_def Let_def split: option.splits sum.splits)

lemma page_settle_current:
  assumes "page_settle reader fallback c oc v = Some v'" "is_current c (lease v)"
  shows "\<not> loading v'" "lease v' = release c (lease v)" "in_flight v' = filter (\<lambda>p. fst p \<noteq> c) (in_flight v)"
    "timer v' = timer v" "filters v' = filters v" "before v' = before v" "history v' = history v"
  using assms by (auto simp: page_settle_def Let_def split: option.splits sum.splits prod.splits)

lemma paged_inv_settle [inv_intros]:
  assumes "paged_inv path v" "page_settle reader fallback c oc v = Some v'"
  shows "paged_inv path v'"
proof (cases "is_current c (lease v)")
  case True
  then have "active (lease v) = Some c"
    by (simp add: is_current_def)
  then have r: "active (release c (lease v)) = None" "fresh (release c (lease v)) = fresh (lease v)"
    by (simp_all add: release_def)
  show ?thesis
    using paged_invD [OF assms(1)] lease_inv_release [of "lease v" c] r
    by (auto simp: paged_inv_def distinct_map_filter page_settle_current [OF assms(2) True])
next
  case False
  then have "active (lease v) \<noteq> Some c"
    using paged_invD(1) [OF assms(1)] by (simp add: is_current_iff_active)
  then show ?thesis
    using page_settle_stale [OF assms(2) False] paged_invD [OF assms(1)]
    by (auto simp: paged_inv_def distinct_map_filter)
qed

subsection \<open>The contract of a paged view\<close>

text \<open>
  A paged view is a start state and a step relation that keep the invariant, together with the
  operation that settles a request.  What follows holds in every state a view can reach.
\<close>

locale paged_view =
  invariant_system start step "paged_inv path"
  for path :: "'f \<Rightarrow> jstr \<Rightarrow> jstr"
    and start :: "('f, 'r, 'm) paged_scheme"
    and step :: "('f, 'r, 'm) paged_scheme \<Rightarrow> ('f, 'r, 'm) paged_scheme \<Rightarrow> bool" +
  fixes reader :: "jval \<Rightarrow> ('r list \<times> jstr option) option"
    and fallback :: jstr
begin

lemma spinner_backed:
  assumes "rtranclp step start v" "loading v"
  shows "timer v = Some (before v, filters v) \<or>
    (\<exists>c. is_current c (lease v) \<and> (c, path (filters v) (before v)) \<in> set (in_flight v))"
proof (cases "timer v")
  case None
  then obtain c where "active (lease v) = Some c"
    using paged_invD(6) [OF reach_inv] assms by blast
  then show ?thesis
    using paged_invD(1,5) [OF reach_inv [OF assms(1)]] is_current_iff_active by blast
next
  case (Some p)
  then show ?thesis
    using paged_invD(4) [OF reach_inv [OF assms(1)], of "fst p" "snd p"] by (cases p) simp
qed

lemma response_for_query:
  assumes "rtranclp step start v" "page_settle reader fallback c oc v = Some v'"
    and "rows v' \<noteq> rows v \<or> next_before_id v' \<noteq> next_before_id v \<or> failure v' \<noteq> failure v \<or> loading v' \<noteq> loading v"
  shows "map_of (in_flight v) c = Some (path (filters v) (before v))"
proof -
  have cur: "is_current c (lease v)"
    using page_settle_stale [OF assms(2)] assms(3) by fastforce
  then have "(c, path (filters v) (before v)) \<in> set (in_flight v)"
    using paged_invD(5) [OF reach_inv [OF assms(1)]] by (simp add: is_current_def)
  then show ?thesis
    using paged_invD(2) [OF reach_inv [OF assms(1)]] by simp
qed

lemma unmounted_settle_silent:
  assumes "rtranclp step start v" "page_settle reader fallback c oc (cleanup_effect v) = Some v'"
  shows "v' = (cleanup_effect v)\<lparr>in_flight := filter (\<lambda>p. fst p \<noteq> c) (in_flight v)\<rparr>"
proof -
  have "\<not> is_current c (lease (cleanup_effect v))"
    by (simp add: cleanup_effect_def is_current_def)
  then show ?thesis
    using page_settle_stale [OF assms(2)] by (simp add: cleanup_effect_def)
qed

end

subsection \<open>Paging back and forth\<close>

lemma set_cursor_cursor [simp]: "before (set_cursor b h u) = b" "history (set_cursor b h u) = h"
  by (simp_all add: set_cursor_def rerun_effect_def arm_timer_def cleanup_effect_def Let_def)

lemma next_page_cursor:
  assumes "next_before_id v = Some n" "n \<noteq> []"
  shows "before (next_page v) = n" "history (next_page v) = history v @ [before v]"
  by (simp_all add: assms next_page_def)

lemma next_then_previous:
  assumes "next_before_id v = Some n" "n \<noteq> []"
  shows "before (previous_page (next_page v)) = before v \<and> history (previous_page (next_page v)) = history v"
  by (simp add: previous_page_def next_page_cursor [OF assms])

text \<open>The cursors of the pages passed, with that of the page on the screen as the last: going back drops
  the last one.\<close>

lemma previous_pages:
  assumes "k \<le> length (history v)"
  shows "history ((previous_page ^^ k) v) @ [before ((previous_page ^^ k) v)] =
    take (Suc (length (history v) - k)) (history v @ [before v])"
  using assms
proof (induction k)
  case (Suc k)
  let ?u = "(previous_page ^^ k) v"
  have u: "history ?u @ [before ?u] = take (Suc (length (history v) - k)) (history v @ [before v])"
    using Suc by simp
  have h: "history ?u = take (length (history v) - k) (history v)"
  proof -
    have "history ?u = butlast (take (Suc (length (history v) - k)) (history v @ [before v]))"
      by (simp del: take_append flip: u)
    also have "\<dots> = take (length (history v) - k) (history v @ [before v])"
      by (subst butlast_take) simp_all
    finally show ?thesis by simp
  qed
  then have "history ?u \<noteq> []"
    using Suc(2) by auto
  then have "history (previous_page ?u) @ [before (previous_page ?u)] = history ?u"
    by (simp add: previous_page_def)
  then show ?case
    using Suc(2) h by (simp add: Suc_diff_Suc)
qed simp

lemma first_page_again:
  assumes "cursor_ok (before v) (history v)"
  shows "before ((previous_page ^^ length (history v)) v) = [] \<and> history ((previous_page ^^ length (history v)) v) = []"
  using previous_pages [of "length (history v)" v] assms by (auto simp: cursor_ok_def simp del: take_append)

lemma can_previous_history: "can_previous v \<Longrightarrow> history v \<noteq> []"
  by (auto simp: can_previous_def page_pagination_def Pagination_def split: if_splits)

lemma can_next_cursor: "can_next v \<Longrightarrow> \<exists>n. next_before_id v = Some n \<and> n \<noteq> []"
  by (auto simp: can_next_def page_pagination_def Pagination_def split: if_splits option.splits)

end
