(* ===== verification/Tasks_View.thy ===== *)
theory Tasks_View
  imports Paged_View
begin

section \<open>The task table: \<open>modules/tasks/TasksView.tsx\<close>\<close>

text \<open>
  The task view is a paged view with two filters, which are edited in a form and take effect when
  the form is submitted.  \<open>tasks_step\<close> has one rule per event: the timer of the effect, a click on
  refresh, retry, next or previous where the control is shown and enabled, the form, and the
  outcome of a request in flight, in any order.
\<close>

datatype task_state = Queued | Pending | Scheduled | Running | Retrying | Succeeded | Failed | Cancelled

fun task_state_value :: "task_state \<Rightarrow> jstr" where
  "task_state_value Queued = lit ''queued''"
| "task_state_value Pending = lit ''pending''"
| "task_state_value Scheduled = lit ''scheduled''"
| "task_state_value Running = lit ''running''"
| "task_state_value Retrying = lit ''retrying''"
| "task_state_value Succeeded = lit ''succeeded''"
| "task_state_value Failed = lit ''failed''"
| "task_state_value Cancelled = lit ''cancelled''"

definition taskStates :: "(task_state \<times> jstr) list" where
  "taskStates =
     [(Queued, [0x5DF2, 0x5165, 0x961F]),
      (Pending, [0x7B49, 0x5F85, 0x4E2D]),
      (Scheduled, [0x5DF2, 0x8BA1, 0x5212]),
      (Running, [0x8FD0, 0x884C, 0x4E2D]),
      (Retrying, [0x91CD, 0x8BD5, 0x4E2D]),
      (Succeeded, [0x5DF2, 0x6210, 0x529F]),
      (Failed, [0x5DF2, 0x5931, 0x8D25]),
      (Cancelled, [0x5DF2, 0x53D6, 0x6D88])]"

definition taskStateLabels :: "task_state \<Rightarrow> jstr option" where
  "taskStateLabels = map_of taskStates"

record task_summary =
  task_id :: jstr
  task_kind :: jstr
  task_queue :: jstr
  task_status :: task_state
  attempt :: int
  max_attempts :: int
  scheduled_at :: jstr
  created_at :: jstr
  finalized_at :: "jstr option"

record task_filters =
  queue_filter :: jstr
  state_filter :: jstr

record tasks_view = "(task_filters, task_summary) paged" +
  queueInput :: jstr
  stateInput :: "task_state option"

definition as_task_state :: "jval \<Rightarrow> task_state option" where
  "as_task_state v =
     (case v of JStr s \<Rightarrow> find (\<lambda>t. task_state_value t = s) (map fst taskStates) | _ \<Rightarrow> None)"

definition as_task_summary :: "jval \<Rightarrow> task_summary option" where
  "as_task_summary v = do {
     i \<leftarrow> str_field v ''id'';
     k \<leftarrow> str_field v ''kind'';
     q \<leftarrow> str_field v ''queue'';
     s \<leftarrow> as_task_state (get_prop v ''state'');
     a \<leftarrow> num_field v ''attempt'';
     m \<leftarrow> num_field v ''max_attempts'';
     sa \<leftarrow> str_field v ''scheduled_at'';
     ca \<leftarrow> str_field v ''created_at'';
     fa \<leftarrow> opt_field as_str v ''finalized_at'';
     Some \<lparr>task_id = i, task_kind = k, task_queue = q, task_status = s, attempt = a, max_attempts = m,
           scheduled_at = sa, created_at = ca, finalized_at = fa\<rparr> }"

definition as_task_page :: "jval \<Rightarrow> (task_summary list \<times> jstr option) option" where
  "as_task_page v = do {
     ts \<leftarrow> as_list as_task_summary (get_prop v ''tasks'');
     n \<leftarrow> opt_field as_str v ''next_before_id'';
     Some (ts, n) }"

definition tasks_query :: "task_filters \<Rightarrow> jstr \<Rightarrow> (jstr \<times> jstr) list" where
  "tasks_query f b =
     (let q0 = [(lit ''limit'', lit ''50'')];
          q1 = (if b \<noteq> [] then assoc_set (lit ''before_id'') b q0 else q0);
          q2 = (if queue_filter f \<noteq> [] then assoc_set (lit ''queue'') (queue_filter f) q1 else q1)
      in if state_filter f \<noteq> [] then assoc_set (lit ''state'') (state_filter f) q2 else q2)"

definition tasks_path :: "task_filters \<Rightarrow> jstr \<Rightarrow> jstr" where
  "tasks_path f b = lit ''/api/tasks?'' @ params_text (tasks_query f b)"

definition tasks_unavailable :: jstr where
  "tasks_unavailable =
     [0x4EFB, 0x52A1, 0x5143, 0x6570, 0x636E, 0x6682, 0x65F6, 0x4E0D, 0x53EF, 0x7528,
      0x3002]"

definition tasks_mount :: tasks_view where
  "tasks_mount = arm_timer
     \<lparr>rows = [], next_before_id = None, loading = True, failure = None,
      filters = \<lparr>queue_filter = [], state_filter = []\<rparr>, before = [], history = [],
      lease = lease_init, timer = None, in_flight = [], queueInput = [], stateInput = None\<rparr>"

definition tasks_load :: "tasks_view \<Rightarrow> tasks_view" where
  "tasks_load v = page_load tasks_path (before v) (filters v) v"

definition tasks_settle :: "nat \<Rightarrow> fetch_outcome \<Rightarrow> tasks_view \<Rightarrow> tasks_view option" where
  "tasks_settle = page_settle as_task_page tasks_unavailable"

definition applyFilters :: "tasks_view \<Rightarrow> tasks_view" where
  "applyFilters v = rerun_effect
     (v\<lparr>history := [], before := [],
        filters := \<lparr>queue_filter = js_trim (queueInput v),
          state_filter = (case stateInput v of None \<Rightarrow> [] | Some s \<Rightarrow> task_state_value s)\<rparr>\<rparr>)"

text \<open>\<open>formatDate\<close> prints what the engine makes of a date, or two dashes when it is not one; the
  engine's parser and formatter are the argument \<open>engine\<close>.\<close>

definition formatDate :: "(jstr \<Rightarrow> jstr option) \<Rightarrow> jstr \<Rightarrow> jstr" where
  "formatDate engine value = (case engine value of None \<Rightarrow> lit ''--'' | Some t \<Rightarrow> t)"

text \<open>The cells of a row in order; the state has a class and a label.\<close>

definition task_row :: "(jstr \<Rightarrow> jstr option) \<Rightarrow> task_summary \<Rightarrow> jstr list" where
  "task_row engine t =
     [task_id t, task_kind t, task_queue t,
      lit ''status-chip status-'' @ task_state_value (task_status t),
      (case taskStateLabels (task_status t) of None \<Rightarrow> [] | Some l \<Rightarrow> l),
      int_text (attempt t) @ lit '' / '' @ int_text (max_attempts t),
      formatDate engine (scheduled_at t)]"

definition tasks_texts :: paged_texts where
  "tasks_texts =
     \<lparr>loading_label = [0x6B63, 0x5728, 0x52A0, 0x8F7D, 0x4EFB, 0x52A1],
      empty_title = [0x6CA1, 0x6709, 0x627E, 0x5230, 0x4EFB, 0x52A1],
      empty_message = [0x5F53, 0x524D, 0x7B5B, 0x9009, 0x6761, 0x4EF6, 0x4E0B, 0x6CA1, 0x6709, 0x6301,
      0x4E45, 0x5316, 0x4EFB, 0x52A1, 0x3002],
      table_label = [0x6301, 0x4E45, 0x5316, 0x4EFB, 0x52A1],
      table_headings =
        [lit ''ID'',
         [0x7C7B, 0x578B],
         [0x961F, 0x5217],
         [0x72B6, 0x6001],
         [0x6267, 0x884C, 0x6B21, 0x6570],
         [0x8BA1, 0x5212, 0x65F6, 0x95F4]]\<rparr>"

text \<open>The page: heading, refresh button, the choices of the state filter, and the body.\<close>

record tasks_markup =
  tasks_page :: page_markup
  tasks_refresh_disabled :: bool
  tasks_choices :: "(jstr \<times> jstr) list"
  tasks_body :: paged_body

definition TasksView :: "jstr \<Rightarrow> (jstr \<Rightarrow> jstr option) \<Rightarrow> tasks_view \<Rightarrow> tasks_markup" where
  "TasksView uid engine v =
     \<lparr>tasks_page = AdminPage uid [0x4EFB, 0x52A1]
        [0x67E5, 0x770B, 0x6301, 0x4E45, 0x5316, 0x4EFB, 0x52A1, 0x7684, 0x53EA, 0x8BFB,
      0x8FD0, 0x884C, 0x5143, 0x6570, 0x636E] True,
      tasks_refresh_disabled = loading v,
      tasks_choices = ([], [0x5168, 0x90E8, 0x72B6, 0x6001]) # map (\<lambda>(s, l). (task_state_value s, l)) taskStates,
      tasks_body = page_body tasks_texts (task_row engine) v\<rparr>"

text \<open>What a user, or the timer of the effect, can do; a step is one of these or the outcome of a
  request.\<close>

inductive tasks_user :: "tasks_view \<Rightarrow> tasks_view \<Rightarrow> bool" where
  timer: "timer v \<noteq> None \<Longrightarrow> tasks_user v (fire_timer tasks_path v)"
| refresh: "\<not> loading v \<Longrightarrow> tasks_user v (tasks_load v)"
| retry: "can_retry v \<Longrightarrow> tasks_user v (tasks_load v)"
| edit_queue: "tasks_user v (v\<lparr>queueInput := q\<rparr>)"
| edit_state: "tasks_user v (v\<lparr>stateInput := s\<rparr>)"
| apply_filters: "tasks_user v (applyFilters v)"
| next_page: "can_next v \<Longrightarrow> tasks_user v (next_page v)"
| previous_page: "can_previous v \<Longrightarrow> tasks_user v (previous_page v)"

inductive tasks_step :: "tasks_view \<Rightarrow> tasks_view \<Rightarrow> bool" where
  user: "tasks_user v v' \<Longrightarrow> tasks_step v v'"
| settle: "tasks_settle c oc v = Some v' \<Longrightarrow> tasks_step v v'"

subsection \<open>The view meets the contract\<close>

lemma tasks_mount_inv: "paged_inv tasks_path tasks_mount"
  by (simp add: tasks_mount_def arm_timer_def paged_inv_def lease_inv_init cursor_ok_first)
    (simp add: lease_init_def)

lemma tasks_user_inv: "tasks_user v v' \<Longrightarrow> paged_inv tasks_path v \<Longrightarrow> paged_inv tasks_path v'"
proof (induction rule: tasks_user.induct)
  case (apply_filters v)
  then show ?case
    unfolding applyFilters_def
    by (intro paged_inv_rerun) (simp_all add: paged_invD cursor_ok_first)
next
  case (edit_queue v q)
  then show ?case by (simp add: paged_inv_def)
next
  case (edit_state v s)
  then show ?case by (simp add: paged_inv_def)
qed (auto simp: tasks_load_def intro: inv_intros)

lemma tasks_step_inv: "tasks_step v v' \<Longrightarrow> paged_inv tasks_path v \<Longrightarrow> paged_inv tasks_path v'"
  by (induction rule: tasks_step.induct)
    (auto simp: tasks_settle_def intro: inv_intros dest: tasks_user_inv)

interpretation tv: paged_view tasks_path tasks_mount tasks_step as_task_page tasks_unavailable
  by unfold_locales (rule tasks_mount_inv, erule (1) tasks_step_inv)

subsection \<open>Properties\<close>

text \<open>
  C11.  The task table only ever shows the answer to the query on screen: whenever the outcome of a
  request changes what the view shows (its rows, its cursor for the next page, its error or its
  spinner), that request was issued for the filters and the cursor the view has at that moment,
  however many requests were issued in between and in whatever order they are answered.
\<close>

theorem tasks_response_for_query:
  assumes "rtranclp tasks_step tasks_mount v" and "tasks_settle c oc v = Some v'"
    and "rows v' \<noteq> rows v \<or> next_before_id v' \<noteq> next_before_id v \<or> failure v' \<noteq> failure v \<or> loading v' \<noteq> loading v"
  shows "map_of (in_flight v) c = Some (tasks_path (filters v) (before v))"
  using tv.response_for_query assms by (simp add: tasks_settle_def)

definition sample_task_page :: jval where
  "sample_task_page = JObj [(lit ''tasks'', JArr []), (lit ''next_before_id'', JStr (lit ''7''))]"

lemma sample_task_page_read: "as_task_page sample_task_page = Some ([], Some (lit ''7''))"
  by (simp add: as_task_page_def sample_task_page_def opt_field_def)

definition tasks_first :: tasks_view where
  "tasks_first = fire_timer tasks_path tasks_mount"

lemma tasks_first_reachable: "rtranclp tasks_step tasks_mount tasks_first"
  unfolding tasks_first_def
  by (rule r_into_rtranclp, rule tasks_step.user, rule tasks_user.timer) (simp add: tasks_mount_def arm_timer_def)

lemma tasks_first_settle:
  obtains v' where "tasks_settle 0 (Response 200 (Some sample_task_page)) tasks_first = Some v'" "\<not> loading v'" "loading tasks_first"
proof -
  have "api_result p (Response 200 (Some sample_task_page)) = Inr sample_task_page" for p
    by (simp add: api_result_def payload_of_def)
  then show thesis
    using that by (simp add: tasks_settle_def page_settle_def tasks_first_def fire_timer_def tasks_mount_def arm_timer_def
        page_load_def begin_request_def lease_init_def cancel_def sample_task_page_read is_current_def)
qed

theorem tasks_response_for_query_witness:
  "map_of (in_flight tasks_first) 0 = Some (tasks_path (filters tasks_first) (before tasks_first))"
proof -
  obtain v' where "tasks_settle 0 (Response 200 (Some sample_task_page)) tasks_first = Some v'" "\<not> loading v'" "loading tasks_first"
    by (rule tasks_first_settle)
  then show ?thesis
    using tasks_response_for_query [OF tasks_first_reachable] by blast
qed

text \<open>
  The spinner never hangs: while the task view is loading, either the timer that starts the
  load of the current cursor and filters is armed, or the current request is in flight, and
  whatever its outcome is, the view stops loading.
\<close>

lemma tasks_spinner_ends:
  assumes "rtranclp tasks_step tasks_mount v" and "loading v"
  shows "timer v = Some (before v, filters v) \<or>
    (\<exists>c. map_of (in_flight v) c = Some (tasks_path (filters v) (before v)) \<and>
       (\<forall>oc v'. tasks_settle c oc v = Some v' \<longrightarrow> \<not> loading v'))"
  using tv.spinner_backed [OF assms] page_settle_current(1) paged_invD(2) [OF tv.reach_inv [OF assms(1)]]
  by (fastforce simp: tasks_settle_def)

text \<open>
  C27.  The query the server reads is the one on screen: the parameters parsed from the query
  string are the limit of 50, then the cursor when there is one, the queue filter when it is not
  empty and the state filter when one is chosen, each with its exact text, whatever characters it
  has.
\<close>

theorem tasks_query_round_trip:
  assumes "well_formed (queue_filter f)" and "well_formed (state_filter f)" and "well_formed b"
  shows "search_params (63 # params_text (tasks_query f b)) =
    (lit ''limit'', lit ''50'') #
    (if b \<noteq> [] then [(lit ''before_id'', b)] else []) @
    (if queue_filter f \<noteq> [] then [(lit ''queue'', queue_filter f)] else []) @
    (if state_filter f \<noteq> [] then [(lit ''state'', state_filter f)] else [])"
proof -
  have q: "tasks_query f b = (lit ''limit'', lit ''50'') #
      (if b \<noteq> [] then [(lit ''before_id'', b)] else []) @
      (if queue_filter f \<noteq> [] then [(lit ''queue'', queue_filter f)] else []) @
      (if state_filter f \<noteq> [] then [(lit ''state'', state_filter f)] else [])"
    by (simp add: tasks_query_def)
  have "\<forall>(k, v) \<in> set (tasks_query f b). well_formed k \<and> well_formed v"
    using assms unfolding q by (auto simp: well_formed_lit)
  then show ?thesis
    by (simp only: search_params_text q)
qed

theorem tasks_query_round_trip_witness:
  "search_params (63 # params_text (tasks_query \<lparr>queue_filter = [0x961F, 38, 61], state_filter = lit ''failed''\<rparr> (lit ''12''))) =
     [(lit ''limit'', lit ''50''), (lit ''before_id'', lit ''12''), (lit ''queue'', [0x961F, 38, 61]),
      (lit ''state'', lit ''failed'')]"
proof -
  have "well_formed [0x961F, 38, 61]"
    by (simp add: well_formed_def is_high_def is_low_def)
  then show ?thesis
    using tasks_query_round_trip [of "\<lparr>queue_filter = [0x961F, 38, 61], state_filter = lit ''failed''\<rparr>" "lit ''12''"]
    by (simp add: well_formed_lit)
qed

text \<open>
  C37.  Paging back and forth is consistent.  In every state the task view reaches, it is on the first
  page exactly when the history is empty.  The next button, when it is enabled, leads to the cursor the
  page on the screen names and puts the present one into the history, and going back from there
  restores both.  Going back \<open>k\<close> times shows the page \<open>k\<close> before the present one among those passed, and
  as many times as the history is long leads to the first page.
\<close>

theorem tasks_paging:
  assumes "rtranclp tasks_step tasks_mount v"
  shows "(history v = [] \<longleftrightarrow> before v = []) \<and>
    (can_next v \<longrightarrow> (\<exists>n. next_before_id v = Some n \<and> n \<noteq> [] \<and>
       before (next_page v) = n \<and> history (next_page v) = history v @ [before v] \<and>
       before (previous_page (next_page v)) = before v \<and> history (previous_page (next_page v)) = history v)) \<and>
    (\<forall>k \<le> length (history v). history ((previous_page ^^ k) v) @ [before ((previous_page ^^ k) v)] =
       take (Suc (length (history v) - k)) (history v @ [before v])) \<and>
    before ((previous_page ^^ length (history v)) v) = []"
proof -
  have "cursor_ok (before v) (history v)"
    by (rule paged_invD(7) [OF tv.reach_inv [OF assms]])
  then show ?thesis
    using cursor_ok_start [of "before v" "history v"] first_page_again [of v] previous_pages [of _ v]
      can_next_cursor [of v] next_page_cursor [of v] next_then_previous [of v]
    by blast
qed

definition full_task_page :: jval where
  "full_task_page = JObj [(lit ''tasks'', JArr [JObj [(lit ''id'', JStr (lit ''9'')), (lit ''kind'', JStr (lit ''mail'')),
     (lit ''queue'', JStr (lit ''default'')), (lit ''state'', JStr (lit ''queued'')), (lit ''attempt'', JNum 0),
     (lit ''max_attempts'', JNum 3), (lit ''scheduled_at'', JStr []), (lit ''created_at'', JStr [])]]),
     (lit ''next_before_id'', JStr (lit ''7''))]"

lemma full_task_page_read: "\<exists>t. as_task_page full_task_page = Some ([t], Some (lit ''7''))"
  by (simp add: as_task_page_def full_task_page_def as_task_summary_def as_task_state_def taskStates_def
      str_field_def num_field_def opt_field_def)

text \<open>At work: the first page has arrived and names the cursor 7; the second page and back.\<close>

theorem tasks_paging_witness:
  "\<exists>v. tasks_settle 0 (Response 200 (Some full_task_page)) tasks_first = Some v \<and> can_next v \<and>
     before (next_page v) = lit ''7'' \<and> history (next_page v) = [[]] \<and>
     before (previous_page (next_page v)) = [] \<and> before ((previous_page ^^ 1) (next_page v)) = []"
proof -
  have "api_result p (Response 200 (Some full_task_page)) = Inr full_task_page" for p
    by (simp add: api_result_def payload_of_def)
  then obtain v where v: "tasks_settle 0 (Response 200 (Some full_task_page)) tasks_first = Some v"
      "next_before_id v = Some (lit ''7'')" "rows v \<noteq> []" "\<not> loading v" "failure v = None" "history v = []" "before v = []"
    using full_task_page_read
    by (auto simp: tasks_settle_def page_settle_def tasks_first_def fire_timer_def tasks_mount_def arm_timer_def
        page_load_def begin_request_def lease_init_def cancel_def is_current_def)
  have n: "can_next v"
    using v(2-5) by (simp add: can_next_def page_pagination_def page_display_def Pagination_def)
  have r: "rtranclp tasks_step tasks_mount v"
    using tasks_first_reachable tasks_step.settle [OF v(1)] by (rule rtranclp.rtrancl_into_rtrancl)
  have r': "rtranclp tasks_step tasks_mount (next_page v)"
    using r tasks_step.user [OF tasks_user.next_page [OF n]] by (rule rtranclp.rtrancl_into_rtrancl)
  show ?thesis
    using tasks_paging [OF r] tasks_paging [OF r'] v n by auto
qed

text \<open>
  The two halves of a double click: the timer that starts the load of the next page has not fired
  when the second click comes, the button is still enabled, and the page on the screen still names
  the same cursor.  That cursor is put into the history as well, so that going back once leads to the
  page one is on.
\<close>

lemma double_next_repeats_page:
  assumes "can_next v" "next_before_id v = Some n" "before v \<noteq> n"
  shows "can_next (next_page v)"
    "before (next_page (next_page v)) = n" "history (next_page (next_page v)) = history v @ [before v, n]"
    "before (previous_page (next_page (next_page v))) = n"
proof -
  have "n \<noteq> []"
    using can_next_cursor [OF assms(1)] assms(2) by auto
  then have e: "next_page v = rerun_effect (v\<lparr>before := n, history := history v @ [before v]\<rparr>)"
    using assms(2,3) by (simp add: next_page_def set_cursor_def)
  then have f: "next_before_id (next_page v) = Some n" "before (next_page v) = n"
      "history (next_page v) = history v @ [before v]"
    using assms(2) by (simp_all add: rerun_effect_def arm_timer_def cleanup_effect_def)
  then have g: "next_page (next_page v) = (next_page v)\<lparr>before := n, history := history v @ [before v, n]\<rparr>"
    using \<open>n \<noteq> []\<close> by (simp add: next_page_def [of "next_page v"] set_cursor_def)
  show "can_next (next_page v)"
    using assms(1) unfolding e
    by (auto simp: can_next_def page_pagination_def page_display_def rerun_effect_def arm_timer_def cleanup_effect_def
        Pagination_def split: option.splits if_splits)
  show "before (next_page (next_page v)) = n" "history (next_page (next_page v)) = history v @ [before v, n]"
    by (simp_all add: g)
  show "before (previous_page (next_page (next_page v))) = n"
    by (simp add: g previous_page_def set_cursor_def)
qed

end
