(* ===== verification/Audit_View.thy ===== *)
theory Audit_View
  imports Tasks_View
begin

section \<open>The audit log: \<open>modules/audit/AuditView.tsx\<close>\<close>

text \<open>
  The audit view is a paged view without filters.  The type of the filters is \<open>unit\<close>.
\<close>

record audit_summary =
  event_id :: jstr
  event_request_id :: jstr
  event_actor_id :: "jstr option"
  event_actor_type :: "jstr option"
  channel :: "jstr option"
  action_id :: jstr
  decision :: jstr
  error_code :: "jstr option"
  started_at :: jstr
  finished_at :: jstr

type_synonym audit_view = "(unit, audit_summary) paged"

definition as_audit_summary :: "jval \<Rightarrow> audit_summary option" where
  "as_audit_summary v = do {
     i \<leftarrow> str_field v ''id'';
     r \<leftarrow> str_field v ''request_id'';
     ai \<leftarrow> opt_field as_str v ''actor_id'';
     aty \<leftarrow> opt_field as_str v ''actor_type'';
     ch \<leftarrow> opt_field as_str v ''channel'';
     ac \<leftarrow> str_field v ''action_id'';
     d \<leftarrow> str_field v ''decision'';
     e \<leftarrow> opt_field as_str v ''error_code'';
     s \<leftarrow> str_field v ''started_at'';
     f \<leftarrow> str_field v ''finished_at'';
     Some \<lparr>event_id = i, event_request_id = r, event_actor_id = ai, event_actor_type = aty, channel = ch,
           action_id = ac, decision = d, error_code = e, started_at = s, finished_at = f\<rparr> }"

definition as_audit_page :: "jval \<Rightarrow> (audit_summary list \<times> jstr option) option" where
  "as_audit_page v = do {
     es \<leftarrow> as_list as_audit_summary (get_prop v ''events'');
     n \<leftarrow> opt_field as_str v ''next_before_id'';
     Some (es, n) }"

definition audit_query :: "jstr \<Rightarrow> (jstr \<times> jstr) list" where
  "audit_query b =
     (let q0 = [(lit ''limit'', lit ''50'')]
      in if b \<noteq> [] then assoc_set (lit ''before_id'') b q0 else q0)"

definition audit_path :: "unit \<Rightarrow> jstr \<Rightarrow> jstr" where
  "audit_path f b = lit ''/api/audit?'' @ params_text (audit_query b)"

definition audit_unavailable :: jstr where
  "audit_unavailable =
     [0x5BA1, 0x8BA1, 0x5143, 0x6570, 0x636E, 0x6682, 0x65F6, 0x4E0D, 0x53EF, 0x7528,
      0x3002]"

definition audit_mount :: audit_view where
  "audit_mount = arm_timer
     \<lparr>rows = [], next_before_id = None, loading = True, failure = None, filters = (), before = [],
      history = [], lease = lease_init, timer = None, in_flight = []\<rparr>"

definition audit_load :: "audit_view \<Rightarrow> audit_view" where
  "audit_load v = page_load audit_path (before v) (filters v) v"

definition audit_settle :: "nat \<Rightarrow> fetch_outcome \<Rightarrow> audit_view \<Rightarrow> audit_view option" where
  "audit_settle = page_settle as_audit_page audit_unavailable"

text \<open>A value that is shown when it is truthy.\<close>

definition shown :: "jstr option \<Rightarrow> jstr list" where
  "shown x = (case x of None \<Rightarrow> [] | Some s \<Rightarrow> if s = [] then [] else [s])"

definition system_actor :: jstr where
  "system_actor = [0x7CFB, 0x7EDF]"

text \<open>The source repeats \<open>formatDate\<close> in this file; the formatting of the engine is a parameter.\<close>

definition audit_formatDate :: "(jstr \<Rightarrow> jstr option) \<Rightarrow> jstr \<Rightarrow> jstr" where
  "audit_formatDate engine value = (case engine value of None \<Rightarrow> lit ''--'' | Some t \<Rightarrow> t)"

text \<open>The cells of a row; the operation, the decision and the actor may have a second line.\<close>

definition audit_row :: "(jstr \<Rightarrow> jstr option) \<Rightarrow> audit_summary \<Rightarrow> jstr list list" where
  "audit_row engine e =
     [[audit_formatDate engine (finished_at e)],
      action_id e # shown (channel e),
      decision e # shown (error_code e),
      (case shown (event_actor_id e) of [] \<Rightarrow> system_actor | a # _ \<Rightarrow> a) # shown (event_actor_type e),
      [event_request_id e]]"

definition audit_texts :: paged_texts where
  "audit_texts =
     \<lparr>loading_label = [0x6B63, 0x5728, 0x52A0, 0x8F7D, 0x5BA1, 0x8BA1, 0x65E5, 0x5FD7],
      empty_title = [0x6682, 0x65E0, 0x5BA1, 0x8BA1, 0x4E8B, 0x4EF6],
      empty_message = [0x5F53, 0x524D, 0x4F5C, 0x7528, 0x57DF, 0x5185, 0x53D7, 0x6CBB, 0x7406, 0x7684,
      0x64CD, 0x4F5C, 0x4F1A, 0x663E, 0x793A, 0x5728, 0x8FD9, 0x91CC, 0x3002],
      table_label = [0x5BA1, 0x8BA1, 0x4E8B, 0x4EF6],
      table_headings =
        [[0x65F6, 0x95F4],
         [0x64CD, 0x4F5C],
         [0x51B3, 0x7B56],
         [0x6267, 0x884C, 0x4E3B, 0x4F53],
         [0x8BF7, 0x6C42, 0x0020, 0x0049, 0x0044]]\<rparr>"

record audit_markup =
  audit_page :: page_markup
  audit_refresh_disabled :: bool
  audit_body :: paged_body

definition AuditView :: "jstr \<Rightarrow> (jstr \<Rightarrow> jstr option) \<Rightarrow> audit_view \<Rightarrow> audit_markup" where
  "AuditView uid engine v =
     \<lparr>audit_page = AdminPage uid [0x5BA1, 0x8BA1, 0x65E5, 0x5FD7]
        [0x67E5, 0x770B, 0x5F53, 0x524D, 0x4F5C, 0x7528, 0x57DF, 0x5185, 0x7684, 0x51B3,
      0x7B56, 0x4E0E, 0x6267, 0x884C, 0x7ED3, 0x679C] True,
      audit_refresh_disabled = loading v,
      audit_body = page_body audit_texts (concat \<circ> audit_row engine) v\<rparr>"

text \<open>What a user, or the timer of the effect, can do; a step is one of these or the outcome of a
  request.\<close>

inductive audit_user :: "audit_view \<Rightarrow> audit_view \<Rightarrow> bool" where
  timer: "timer v \<noteq> None \<Longrightarrow> audit_user v (fire_timer audit_path v)"
| refresh: "\<not> loading v \<Longrightarrow> audit_user v (audit_load v)"
| retry: "can_retry v \<Longrightarrow> audit_user v (audit_load v)"
| next_page: "can_next v \<Longrightarrow> audit_user v (next_page v)"
| previous_page: "can_previous v \<Longrightarrow> audit_user v (previous_page v)"

inductive audit_step :: "audit_view \<Rightarrow> audit_view \<Rightarrow> bool" where
  user: "audit_user v v' \<Longrightarrow> audit_step v v'"
| settle: "audit_settle c oc v = Some v' \<Longrightarrow> audit_step v v'"

lemma audit_mount_inv: "paged_inv audit_path audit_mount"
  by (simp add: audit_mount_def arm_timer_def paged_inv_def lease_inv_init cursor_ok_first)
    (simp add: lease_init_def)

lemma audit_load_inv [inv_intros]: "paged_inv audit_path v \<Longrightarrow> paged_inv audit_path (audit_load v)"
  unfolding audit_load_def by (rule paged_inv_load)

lemma audit_user_inv: "audit_user v v' \<Longrightarrow> paged_inv audit_path v \<Longrightarrow> paged_inv audit_path v'"
  by (induction rule: audit_user.induct) (auto intro: inv_intros)

lemma audit_step_inv: "audit_step v v' \<Longrightarrow> paged_inv audit_path v \<Longrightarrow> paged_inv audit_path v'"
  by (induction rule: audit_step.induct)
    (auto simp: audit_settle_def intro: inv_intros dest: audit_user_inv)

interpretation av: paged_view audit_path audit_mount audit_step as_audit_page audit_unavailable
  by unfold_locales (rule audit_mount_inv, erule (1) audit_step_inv)

subsection \<open>Properties\<close>

text \<open>
  C35.  The audit log shows the answer to the query on screen: whenever the outcome of a request
  changes what the view shows, the request was issued for the cursor the view has at that moment,
  and the server reads from its query string exactly the limit and that cursor.
\<close>

theorem audit_response_for_query:
  assumes "rtranclp audit_step audit_mount v" and "audit_settle c oc v = Some v'" and "well_formed (before v)"
    and "rows v' \<noteq> rows v \<or> next_before_id v' \<noteq> next_before_id v \<or> failure v' \<noteq> failure v \<or> loading v' \<noteq> loading v"
  shows "\<exists>q. map_of (in_flight v) c = Some (lit ''/api/audit?'' @ q) \<and>
    search_params (63 # q) = (lit ''limit'', lit ''50'') # (if before v = [] then [] else [(lit ''before_id'', before v)])"
proof -
  have q: "audit_query (before v) =
      (lit ''limit'', lit ''50'') # (if before v = [] then [] else [(lit ''before_id'', before v)])"
    by (simp add: audit_query_def)
  then have "\<forall>(k, x) \<in> set (audit_query (before v)). well_formed k \<and> well_formed x"
    using assms(3) by auto
  then have "search_params (63 # params_text (audit_query (before v))) = audit_query (before v)"
    by (rule search_params_text)
  moreover have "map_of (in_flight v) c = Some (audit_path (filters v) (before v))"
    using av.response_for_query assms(1,2,4) by (simp add: audit_settle_def)
  ultimately show ?thesis
    unfolding q by (auto simp: audit_path_def q)
qed

definition audit_first :: audit_view where
  "audit_first = fire_timer audit_path audit_mount"

lemma audit_first_reachable: "rtranclp audit_step audit_mount audit_first"
  unfolding audit_first_def
  by (rule r_into_rtranclp, rule audit_step.user, rule audit_user.timer) (simp add: audit_mount_def arm_timer_def)

theorem audit_response_for_query_witness:
  "\<exists>q. map_of (in_flight audit_first) 0 = Some (lit ''/api/audit?'' @ q) \<and>
     search_params (63 # q) = [(lit ''limit'', lit ''50'')]"
proof -
  have b: "before audit_first = []"
    by (simp add: audit_first_def fire_timer_def audit_mount_def arm_timer_def page_load_def split_beta)
  obtain v' where "audit_settle 0 (FetchRejected OtherCause) audit_first = Some v'" "\<not> loading v'" "loading audit_first"
    by (simp add: audit_settle_def page_settle_def audit_first_def fire_timer_def audit_mount_def arm_timer_def
        page_load_def begin_request_def lease_init_def cancel_def is_current_def api_result_def)
  moreover have "well_formed []"
    by (simp add: well_formed_def)
  ultimately show ?thesis
    using audit_response_for_query [OF audit_first_reachable] b by auto
qed

text \<open>
  Leaving the audit log silences it: after the clean-up of the effect, which runs when the
  view unmounts, no outcome of a request still in flight changes any state of the view, and its
  timer is gone.
\<close>

lemma audit_unmount_silent:
  assumes "rtranclp audit_step audit_mount v" and "audit_settle c oc (cleanup_effect v) = Some v'"
  shows "timer v' = None \<and> rows v' = rows v \<and> failure v' = failure v \<and> loading v' = loading v \<and>
    before v' = before v \<and> history v' = history v \<and> \<not> is_current c (lease v')"
proof -
  have "v' = (cleanup_effect v)\<lparr>in_flight := filter (\<lambda>p. fst p \<noteq> c) (in_flight v)\<rparr>"
    using av.unmounted_settle_silent [OF assms(1)] assms(2) unfolding audit_settle_def by blast
  then show ?thesis
    by (simp add: cleanup_effect_def is_current_def)
qed

end
