(* ===== verification/Records_Store.thy ===== *)
theory Records_Store
  imports Api_Client
begin

section \<open>The records store: \<open>modules/records/store.tsx\<close>\<close>

text \<open>
  The provider keeps the list, the flags of the load and the promise of a load in flight.
  \<open>calls\<close> lists the API calls that have not settled, each with the variables its continuation
  captured; \<open>records_settle\<close> delivers an outcome to one of them, runs the continuation on the store
  and says how the caller's promise settles.  Payloads are of the declared types, as elsewhere.
\<close>

datatype record_status = Draft | Active | Archived

record record_item =
  rec_id :: jstr
  rec_title :: jstr
  rec_status :: record_status
  rec_version :: int
  rec_created_at :: jstr
  rec_updated_at :: jstr

record record_input =
  input_title :: jstr
  input_status :: record_status

fun record_status_value :: "record_status \<Rightarrow> jstr" where
  "record_status_value Draft = lit ''draft''"
| "record_status_value Active = lit ''active''"
| "record_status_value Archived = lit ''archived''"

definition as_record_status :: "jval \<Rightarrow> record_status option" where
  "as_record_status v =
     (case v of JStr s \<Rightarrow> find (\<lambda>t. record_status_value t = s) [Draft, Active, Archived] | _ \<Rightarrow> None)"

definition as_record_item :: "jval \<Rightarrow> record_item option" where
  "as_record_item v = do {
     i \<leftarrow> str_field v ''id'';
     t \<leftarrow> str_field v ''title'';
     s \<leftarrow> as_record_status (get_prop v ''status'');
     n \<leftarrow> num_field v ''version'';
     c \<leftarrow> str_field v ''created_at'';
     u \<leftarrow> str_field v ''updated_at'';
     Some \<lparr>rec_id = i, rec_title = t, rec_status = s, rec_version = n, rec_created_at = c, rec_updated_at = u\<rparr> }"

definition as_records :: "jval \<Rightarrow> record_item list option" where
  "as_records v = as_list as_record_item (get_prop v ''records'')"

datatype rec_call =
    LoadCall
  | CreateCall record_input
  | UpdateCall record_item record_input
  | RemoveCall record_item

fun is_load :: "rec_call \<Rightarrow> bool" where
  "is_load LoadCall = True"
| "is_load _ = False"

record records_store =
  record_items :: "record_item list"
  rec_loading :: bool
  loaded :: bool
  rec_error :: jstr
  errorStatus :: "nat option"
  loadPromise :: "nat option"
  calls :: "(nat \<times> rec_call) list"
  next_rec :: nat

definition records_init :: records_store where
  "records_init = \<lparr>record_items = [], rec_loading = False, loaded = False, rec_error = [], errorStatus = None,
     loadPromise = None, calls = [], next_rec = 0\<rparr>"

text \<open>What the provider's consumers see of the state.\<close>

record records_value =
  value_items :: "record_item list"
  value_loading :: bool
  value_loaded :: bool
  value_error :: jstr
  value_errorStatus :: "nat option"
  value_count :: nat

definition records_context_value :: "'m records_store_scheme \<Rightarrow> records_value" where
  "records_context_value s =
     \<lparr>value_items = record_items s, value_loading = rec_loading s, value_loaded = loaded s,
      value_error = rec_error s, value_errorStatus = errorStatus s, value_count = length (record_items s)\<rparr>"

subsection \<open>The requests\<close>

definition input_members :: "record_input \<Rightarrow> (jstr \<times> jval) list" where
  "input_members x =
     [(lit ''title'', JStr (input_title x)), (lit ''status'', JStr (record_status_value (input_status x)))]"

fun rec_path :: "rec_call \<Rightarrow> jstr" where
  "rec_path LoadCall = lit ''/api/records''"
| "rec_path (CreateCall x) = lit ''/api/records''"
| "rec_path (UpdateCall r x) = lit ''/api/records/'' @ rec_id r"
| "rec_path (RemoveCall r) = lit ''/api/records/'' @ rec_id r"

fun rec_options :: "rec_call \<Rightarrow> request_init" where
  "rec_options LoadCall = no_options"
| "rec_options (CreateCall x) =
     no_options\<lparr>init_method := Some (lit ''POST''), init_body := Some (json_stringify (JObj (input_members x)))\<rparr>"
| "rec_options (UpdateCall r x) =
     no_options\<lparr>init_method := Some (lit ''PATCH''),
       init_body := Some (json_stringify (JObj (input_members x @ [(lit ''version'', JNum (rec_version r))])))\<rparr>"
| "rec_options (RemoveCall r) =
     no_options\<lparr>init_method := Some (lit ''DELETE''), init_body := Some (lit ''{}'')\<rparr>"

definition rec_request :: "jstr \<Rightarrow> rec_call \<Rightarrow> request" where
  "rec_request token c = api_request token (rec_path c) (rec_options c)"

subsection \<open>The operations\<close>

definition issue :: "rec_call \<Rightarrow> 'm records_store_scheme \<Rightarrow> 'm records_store_scheme" where
  "issue c s = s\<lparr>calls := calls s @ [(next_rec s, c)], next_rec := Suc (next_rec s)\<rparr>"

definition records_load :: "'m records_store_scheme \<Rightarrow> 'm records_store_scheme" where
  "records_load s =
     (case loadPromise s of
        Some p \<Rightarrow> s
      | None \<Rightarrow> issue LoadCall
          (s\<lparr>rec_loading := True, rec_error := [], errorStatus := None, loadPromise := Some (next_rec s)\<rparr>))"

definition records_create :: "record_input \<Rightarrow> 'm records_store_scheme \<Rightarrow> 'm records_store_scheme" where
  "records_create x s = issue (CreateCall x) s"

definition records_update :: "record_item \<Rightarrow> record_input \<Rightarrow> 'm records_store_scheme \<Rightarrow> 'm records_store_scheme" where
  "records_update r x s = issue (UpdateCall r x) s"

definition records_remove :: "record_item \<Rightarrow> 'm records_store_scheme \<Rightarrow> 'm records_store_scheme" where
  "records_remove r s = issue (RemoveCall r) s"

definition records_failed_text :: jstr where
  "records_failed_text =
     [0x8BB0, 0x5F55, 0x52A0, 0x8F7D, 0x5931, 0x8D25, 0xFF0C, 0x8BF7, 0x91CD, 0x8BD5,
      0x3002]"

definition load_error :: "cause \<Rightarrow> jstr" where
  "load_error c = (case c of ApiCause e \<Rightarrow> err_message e | ErrorCause m \<Rightarrow> m | OtherCause \<Rightarrow> records_failed_text)"

definition load_error_status :: "cause \<Rightarrow> nat option" where
  "load_error_status c = (case c of ApiCause e \<Rightarrow> Some (err_status e) | _ \<Rightarrow> None)"

definition load_settled :: "cause + jval \<Rightarrow> 'm records_store_scheme \<Rightarrow> ('m records_store_scheme \<times> (cause + unit)) option" where
  "load_settled res s =
     (let finish = (\<lambda>u. u\<lparr>rec_loading := False, loadPromise := None\<rparr>)
      in case res of
           Inr v \<Rightarrow> map_option (\<lambda>rs. (finish (s\<lparr>record_items := rs, loaded := True\<rparr>), Inr ())) (as_records v)
         | Inl c \<Rightarrow> Some (finish (s\<lparr>rec_error := load_error c, errorStatus := load_error_status c\<rparr>), Inl c))"

definition create_settled :: "cause + jval \<Rightarrow> 'm records_store_scheme \<Rightarrow> ('m records_store_scheme \<times> (cause + unit)) option" where
  "create_settled res s =
     (case res of
        Inr v \<Rightarrow> map_option (\<lambda>r. (s\<lparr>record_items := r # record_items s\<rparr>, Inr ())) (as_record_item v)
      | Inl c \<Rightarrow> Some (s, Inl c))"

definition update_settled ::
    "record_item \<Rightarrow> cause + jval \<Rightarrow> 'm records_store_scheme \<Rightarrow> ('m records_store_scheme \<times> (cause + unit)) option" where
  "update_settled r res s =
     (case res of
        Inr v \<Rightarrow> map_option (\<lambda>response.
            (s\<lparr>record_items := map (\<lambda>item. if rec_id item = rec_id r then response else item) (record_items s)\<rparr>,
             Inr ())) (as_record_item v)
      | Inl c \<Rightarrow> Some (s, Inl c))"

definition remove_settled ::
    "record_item \<Rightarrow> cause + jval \<Rightarrow> 'm records_store_scheme \<Rightarrow> ('m records_store_scheme \<times> (cause + unit)) option" where
  "remove_settled r res s =
     (case res of
        Inr v \<Rightarrow> Some (s\<lparr>record_items := filter (\<lambda>item. rec_id item \<noteq> rec_id r) (record_items s)\<rparr>, Inr ())
      | Inl c \<Rightarrow> Some (s, Inl c))"

fun continuation :: "rec_call \<Rightarrow> cause + jval \<Rightarrow> 'm records_store_scheme \<Rightarrow> ('m records_store_scheme \<times> (cause + unit)) option" where
  "continuation LoadCall = load_settled"
| "continuation (CreateCall x) = create_settled"
| "continuation (UpdateCall r x) = update_settled r"
| "continuation (RemoveCall r) = remove_settled r"

definition records_settle ::
    "nat \<Rightarrow> fetch_outcome \<Rightarrow> 'm records_store_scheme \<Rightarrow> (rec_call \<times> 'm records_store_scheme \<times> (cause + unit)) option" where
  "records_settle i oc s =
     (case map_of (calls s) i of
        None \<Rightarrow> None
      | Some c \<Rightarrow>
          map_option (Pair c)
            (continuation c (api_result (rec_path c) oc)
              (s\<lparr>calls := filter (\<lambda>p. fst p \<noteq> i) (calls s)\<rparr>)))"

subsection \<open>The list as a keyed store\<close>

text \<open>
  What the rest of the module relies on: the list, read by identifier, behaves as a finite map
  under the three updates of the continuations.
\<close>

locale keyed_store =
  fixes lookup :: "'s \<Rightarrow> 'k \<Rightarrow> 'v option"
    and key :: "'v \<Rightarrow> 'k"
    and add :: "'v \<Rightarrow> 's \<Rightarrow> 's"
    and replace :: "'k \<Rightarrow> 'v \<Rightarrow> 's \<Rightarrow> 's"
    and drop_key :: "'k \<Rightarrow> 's \<Rightarrow> 's"
  assumes lookup_add: "lookup (add v s) = (lookup s)(key v \<mapsto> v)"
    and lookup_replace: "key v = k \<Longrightarrow> lookup (replace k v s) = (if lookup s k = None then lookup s else (lookup s)(k \<mapsto> v))"
    and lookup_drop: "lookup (drop_key k s) = (lookup s)(k := None)"
begin

lemma drop_added: "lookup s (key v) = None \<Longrightarrow> lookup (drop_key (key v) (add v s)) = lookup s"
  by (auto simp: lookup_add lookup_drop)

lemma replace_added: "key v = key w \<Longrightarrow> lookup (replace (key w) v (add w s)) = (lookup s)(key w \<mapsto> v)"
  by (auto simp: lookup_add lookup_replace)

end

definition record_map :: "record_item list \<Rightarrow> jstr \<Rightarrow> record_item option" where
  "record_map xs = map_of (map (\<lambda>r. (rec_id r, r)) xs)"

lemma record_map_replace:
  assumes "rec_id v = k"
  shows "record_map (map (\<lambda>r. if rec_id r = k then v else r) xs) =
    (if record_map xs k = None then record_map xs else (record_map xs)(k \<mapsto> v))"
  using assms unfolding record_map_def by (induction xs) (auto simp: fun_eq_iff split: if_splits)

lemma record_map_drop: "record_map (filter (\<lambda>r. rec_id r \<noteq> k) xs) = (record_map xs)(k := None)"
  unfolding record_map_def by (induction xs) (auto simp: fun_eq_iff)

interpretation rk: keyed_store record_map rec_id "(#)" "\<lambda>k v. map (\<lambda>r. if rec_id r = k then v else r)"
    "\<lambda>k. filter (\<lambda>r. rec_id r \<noteq> k)"
  by unfold_locales (simp add: record_map_def, erule record_map_replace, rule record_map_drop)

lemma records_settle_call: "records_settle i oc s = Some (c, s', res) \<Longrightarrow> map_of (calls s) i = Some c"
  by (auto simp: records_settle_def split: option.splits)

text \<open>A record that is created and then deleted, or created and then updated, leaves the list, read as
  a map, as it was, or as if the update had been created.\<close>

lemma create_then_remove:
  assumes "record_map (record_items s) (rec_id r) = None"
    and "create_settled (Inr v) s = Some (s1, Inr ())" "as_record_item v = Some r"
    and "remove_settled r (Inr v') s1 = Some (s2, Inr ())"
  shows "record_map (record_items s2) = record_map (record_items s)"
  using assms rk.drop_added [of "record_items s" r] by (auto simp: create_settled_def remove_settled_def)

lemma create_then_update:
  assumes "create_settled (Inr v) s = Some (s1, Inr ())" "as_record_item v = Some r"
    and "update_settled r (Inr v') s1 = Some (s2, Inr ())" "as_record_item v' = Some r'" "rec_id r' = rec_id r"
  shows "record_map (record_items s2) = (record_map (record_items s))(rec_id r \<mapsto> r')"
  using assms rk.replace_added [of r' r "record_items s"] by (auto simp: create_settled_def update_settled_def)

text \<open>
  C25.  A call that succeeds has exactly its effect on the list.  A load replaces the list; a create
  adds the server's answer in front; an update, answered with the same identifier, replaces the
  record wherever the list has it and changes no other record, nor the order; a delete removes the
  record and no other.
\<close>

theorem records_settle_effect:
  assumes "records_settle i oc s = Some (c, s', Inr ())" and "api_result (rec_path c) oc = Inr v"
  shows "case c of
      LoadCall \<Rightarrow> as_records v = Some (record_items s') \<and> loaded s' \<and> \<not> rec_loading s'
    | CreateCall x \<Rightarrow> \<exists>r'. as_record_item v = Some r' \<and> record_items s' = r' # record_items s \<and>
        record_map (record_items s') = (record_map (record_items s))(rec_id r' \<mapsto> r')
    | UpdateCall r x \<Rightarrow> \<exists>r'. as_record_item v = Some r' \<and>
        (rec_id r' = rec_id r \<longrightarrow> map rec_id (record_items s') = map rec_id (record_items s) \<and>
          record_map (record_items s') =
            (if record_map (record_items s) (rec_id r) = None then record_map (record_items s)
             else (record_map (record_items s))(rec_id r \<mapsto> r')))
    | RemoveCall r \<Rightarrow> record_map (record_items s') = (record_map (record_items s))(rec_id r := None)"
proof (cases c)
  case (UpdateCall r x)
  then obtain r' where r: "as_record_item v = Some r'"
      "record_items s' = map (\<lambda>item. if rec_id item = rec_id r then r' else item) (record_items s)"
    using assms by (auto simp: records_settle_def update_settled_def split: option.splits)
  then show ?thesis
    using rk.lookup_replace [of r' "rec_id r" "record_items s"] map_replace_id [of "record_items s" rec_id "rec_id r" r']
    by (simp add: UpdateCall)
qed (use assms in \<open>auto simp: records_settle_def load_settled_def create_settled_def remove_settled_def Let_def
    rk.lookup_add rk.lookup_drop split: option.splits\<close>)

definition sample_record :: "string \<Rightarrow> string \<Rightarrow> record_item" where
  "sample_record i t = \<lparr>rec_id = lit i, rec_title = lit t, rec_status = Draft, rec_version = 1,
     rec_created_at = lit ''c'', rec_updated_at = lit ''u''\<rparr>"

definition sample_record_json :: "string \<Rightarrow> string \<Rightarrow> jval" where
  "sample_record_json i t = JObj [(lit ''id'', JStr (lit i)), (lit ''title'', JStr (lit t)),
     (lit ''status'', JStr (lit ''draft'')), (lit ''version'', JNum 1),
     (lit ''created_at'', JStr (lit ''c'')), (lit ''updated_at'', JStr (lit ''u''))]"

lemma sample_record_read [simp]: "as_record_item (sample_record_json i t) = Some (sample_record i t)"
  by (simp add: as_record_item_def sample_record_json_def sample_record_def str_field_def num_field_def as_record_status_def)

lemma api_result_ok [simp]: "api_result p (Response 200 (Some v)) = Inr v"
  by (simp add: api_result_def payload_of_def)

definition sample_input :: record_input where
  "sample_input = \<lparr>input_title = lit ''t'', input_status = Draft\<rparr>"

theorem records_settle_effect_witness:
  "\<exists>s'. records_settle 0 (Response 200 (Some (sample_record_json ''a'' ''t''))) (records_create sample_input records_init) =
       Some (CreateCall sample_input, s', Inr ()) \<and>
     record_map (record_items s') (lit ''a'') = Some (sample_record ''a'' ''t'')"
proof -
  obtain s' where s: "records_settle 0 (Response 200 (Some (sample_record_json ''a'' ''t'')))
      (records_create sample_input records_init) = Some (CreateCall sample_input, s', Inr ())"
    by (simp add: records_settle_def records_create_def issue_def records_init_def create_settled_def)
  then show ?thesis
    using records_settle_effect [OF s, of "sample_record_json ''a'' ''t''"] by (auto simp: sample_record_def)
qed

text \<open>
  Every mutation made while the client holds a token carries that token and is sent as JSON, and an update states the version of the record it was made from, as
  the last member of its body, so that the server can refuse to overwrite a newer version.
\<close>

lemma records_requests_guarded:
  assumes "\<not> is_load c" and "token \<noteq> []"
  shows "map_of (req_headers (rec_request token c)) (lit ''x-csrf-token'') = Some token \<and>
    map_of (req_headers (rec_request token c)) (lit ''content-type'') = Some (lit ''application/json'') \<and>
    (\<forall>r x. c = UpdateCall r x \<longrightarrow> req_method (rec_request token c) = Some (lit ''PATCH'') \<and>
       req_path (rec_request token c) = lit ''/api/records/'' @ rec_id r \<and>
       req_body (rec_request token c) = Some (lit ''{'' @ quote (lit ''title'') @ lit '':'' @ quote (input_title x) @ lit '','' @
         quote (lit ''status'') @ lit '':'' @ quote (record_status_value (input_status x)) @ lit '','' @
         quote (lit ''version'') @ lit '':'' @ int_text (rec_version r) @ lit ''}''))"
  using assms by (cases c) (simp_all add: rec_request_def api_request_def Let_def header_set_def sends_token_def
      headers_of_def no_options_def input_members_def)

end
