(* ===== verification/Toast_Store.thy ===== *)
theory Toast_Store
  imports Admin_Prelude
begin

section \<open>Notifications: \<open>stores/toast.tsx\<close>, \<open>components/ToastRegion.tsx\<close>\<close>

text \<open>
  The store keeps the notifications on the screen, the counter of the identifiers and a map from
  identifiers to the handles of the timers that will dismiss them.  The timers of the window are
  part of the state: \<open>scheduled\<close> lists each live timer with its handle, the time it is due and the
  notification its callback dismisses, and \<open>clock\<close> is the time in milliseconds.  \<open>tick\<close> lets time
  pass and runs the callbacks that are due, in the order they were scheduled.
\<close>

datatype tone = SuccessTone | ErrorTone

record toast =
  toast_id :: nat
  toast_message :: jstr
  toast_tone :: tone

record toast_timer =
  handle :: nat
  due :: nat
  dismisses :: nat

record toast_state =
  items :: "toast list"
  sequence :: nat
  timers :: "(nat \<times> nat) list"
  clock :: nat
  next_handle :: nat
  scheduled :: "toast_timer list"

definition toast_init :: toast_state where
  "toast_init = \<lparr>items = [], sequence = 0, timers = [], clock = 0, next_handle = 1, scheduled = []\<rparr>"

definition clearTimeout :: "nat \<Rightarrow> toast_state \<Rightarrow> toast_state" where
  "clearTimeout h s = s\<lparr>scheduled := filter (\<lambda>t. handle t \<noteq> h) (scheduled s)\<rparr>"

definition setTimeout :: "nat \<Rightarrow> nat \<Rightarrow> toast_state \<Rightarrow> nat \<times> toast_state" where
  "setTimeout i delay s =
     (next_handle s,
      s\<lparr>next_handle := Suc (next_handle s),
        scheduled := scheduled s @ [\<lparr>handle = next_handle s, due = clock s + delay, dismisses = i\<rparr>]\<rparr>)"

definition dismiss :: "nat \<Rightarrow> toast_state \<Rightarrow> toast_state" where
  "dismiss i s =
     (let s1 = (case map_of (timers s) i of None \<Rightarrow> s | Some h \<Rightarrow> clearTimeout h s)
      in s1\<lparr>timers := filter (\<lambda>p. fst p \<noteq> i) (timers s1),
            items := filter (\<lambda>x. toast_id x \<noteq> i) (items s1)\<rparr>)"

definition show_toast :: "jstr \<Rightarrow> tone option \<Rightarrow> toast_state \<Rightarrow> toast_state" where
  "show_toast message t s =
     (let i = Suc (sequence s);
          s1 = s\<lparr>sequence := i,
                 items := items s @ [\<lparr>toast_id = i, toast_message = message,
                   toast_tone = (case t of None \<Rightarrow> SuccessTone | Some x \<Rightarrow> x)\<rparr>]\<rparr>;
          (h, s2) = setTimeout i 4000 s1
      in s2\<lparr>timers := assoc_set i h (timers s2)\<rparr>)"

definition toast_unmount :: "toast_state \<Rightarrow> toast_state" where
  "toast_unmount s = (fold (\<lambda>p. clearTimeout (snd p)) (timers s) s)\<lparr>timers := []\<rparr>"

definition fire :: "toast_timer \<Rightarrow> toast_state \<Rightarrow> toast_state" where
  "fire t s = dismiss (dismisses t) (clearTimeout (handle t) s)"

definition tick :: "nat \<Rightarrow> toast_state \<Rightarrow> toast_state" where
  "tick d s =
     (let s1 = s\<lparr>clock := clock s + d\<rparr>
      in fold fire (filter (\<lambda>t. due t \<le> clock s1) (scheduled s1)) s1)"

datatype toast_icon = CheckCircle2 | CircleAlert

definition toast_row :: "toast \<Rightarrow> nat \<times> toast_icon \<times> jstr" where
  "toast_row x =
     (toast_id x, if toast_tone x = SuccessTone then CheckCircle2 else CircleAlert, toast_message x)"

text \<open>What the provider's consumers see.\<close>

record toast_value =
  context_items :: "toast list"
  context_show :: "jstr \<Rightarrow> tone option \<Rightarrow> toast_state \<Rightarrow> toast_state"
  context_dismiss :: "nat \<Rightarrow> toast_state \<Rightarrow> toast_state"

definition toast_context :: "toast_state \<Rightarrow> toast_value" where
  "toast_context s = \<lparr>context_items = items s, context_show = show_toast, context_dismiss = dismiss\<rparr>"

definition ToastRegion :: "toast_state \<Rightarrow> (nat \<times> toast_icon \<times> jstr) list" where
  "ToastRegion s = map toast_row (context_items (toast_context s))"

subsection \<open>What the store promises\<close>

text \<open>
  The specification has no timers: a notification carries the time it was shown at, and it is on
  the screen until it is dismissed or 4000 milliseconds have passed.
\<close>

datatype toast_event = Show jstr "tone option" | Dismiss nat | Tick nat

fun toast_exec :: "toast_event \<Rightarrow> toast_state \<Rightarrow> toast_state" where
  "toast_exec (Show m t) s = show_toast m t s"
| "toast_exec (Dismiss i) s = dismiss i s"
| "toast_exec (Tick d) s = tick d s"

record toast_spec =
  spec_items :: "(toast \<times> nat) list"
  spec_count :: nat
  spec_clock :: nat

definition toast_spec_init :: toast_spec where
  "toast_spec_init = \<lparr>spec_items = [], spec_count = 0, spec_clock = 0\<rparr>"

fun toast_spec_exec :: "toast_event \<Rightarrow> toast_spec \<Rightarrow> toast_spec" where
  "toast_spec_exec (Show m t) a =
     a\<lparr>spec_count := Suc (spec_count a),
       spec_items := spec_items a @
         [(\<lparr>toast_id = Suc (spec_count a), toast_message = m,
            toast_tone = (case t of None \<Rightarrow> SuccessTone | Some x \<Rightarrow> x)\<rparr>, spec_clock a)]\<rparr>"
| "toast_spec_exec (Dismiss i) a = a\<lparr>spec_items := filter (\<lambda>p. toast_id (fst p) \<noteq> i) (spec_items a)\<rparr>"
| "toast_spec_exec (Tick d) a =
     a\<lparr>spec_clock := spec_clock a + d,
       spec_items := filter (\<lambda>p. spec_clock a + d < snd p + 4000) (spec_items a)\<rparr>"

text \<open>The simulation: the live timers are those of the items, in order, each due 4000 ms after its
  item was shown, and \<open>timers\<close> has the handle of each.\<close>

definition toast_sim :: "toast_state \<Rightarrow> toast_spec \<Rightarrow> bool" where
  "toast_sim s a \<longleftrightarrow>
     sequence s = spec_count a \<and> clock s = spec_clock a \<and> items s = map fst (spec_items a) \<and>
     map (\<lambda>t. (dismisses t, due t)) (scheduled s) = map (\<lambda>p. (toast_id (fst p), snd p + 4000)) (spec_items a) \<and>
     timers s = map (\<lambda>t. (dismisses t, handle t)) (scheduled s) \<and>
     distinct (map toast_id (items s)) \<and> (\<forall>x \<in> set (items s). toast_id x \<le> sequence s) \<and>
     distinct (map handle (scheduled s)) \<and> (\<forall>t \<in> set (scheduled s). handle t < next_handle s)"

lemma toast_sim_init: "toast_sim toast_init toast_spec_init"
  by (simp add: toast_sim_def toast_init_def toast_spec_init_def)

lemma dismiss_fields [simp]:
  "sequence (dismiss i s) = sequence s" "clock (dismiss i s) = clock s"
  "next_handle (dismiss i s) = next_handle s"
  "items (dismiss i s) = filter (\<lambda>x. toast_id x \<noteq> i) (items s)"
  "timers (dismiss i s) = filter (\<lambda>p. fst p \<noteq> i) (timers s)"
  by (simp_all add: dismiss_def clearTimeout_def Let_def split: option.split)

lemma toast_simD:
  assumes "toast_sim s a"
  shows "sequence s = spec_count a" "clock s = spec_clock a" "items s = map fst (spec_items a)"
    "map (\<lambda>t. (dismisses t, due t)) (scheduled s) = map (\<lambda>p. (toast_id (fst p), snd p + 4000)) (spec_items a)"
    "timers s = map (\<lambda>t. (dismisses t, handle t)) (scheduled s)"
    "distinct (map toast_id (items s))" "\<forall>x \<in> set (items s). toast_id x \<le> sequence s"
    "distinct (map handle (scheduled s))" "\<forall>t \<in> set (scheduled s). handle t < next_handle s"
  using assms unfolding toast_sim_def by blast+

lemma toast_sim_distinct:
  assumes "toast_sim s a"
  shows "distinct (map dismisses (scheduled s))" "map dismisses (scheduled s) = map toast_id (items s)"
proof -
  have "map fst (map (\<lambda>t. (dismisses t, due t)) (scheduled s)) =
      map fst (map (\<lambda>p. (toast_id (fst p), snd p + 4000)) (spec_items a))"
    unfolding toast_simD(4) [OF assms] ..
  then show m: "map dismisses (scheduled s) = map toast_id (items s)"
    by (simp add: toast_simD(3) [OF assms] comp_def)
  show "distinct (map dismisses (scheduled s))"
    unfolding m by (rule toast_simD(6) [OF assms])
qed

lemma scheduled_dismiss:
  assumes "timers s = map (\<lambda>t. (dismisses t, handle t)) (scheduled s)"
    and "distinct (map dismisses (scheduled s))" and "distinct (map handle (scheduled s))"
  shows "scheduled (dismiss i s) = filter (\<lambda>t. dismisses t \<noteq> i) (scheduled s)"
proof (cases "map_of (timers s) i")
  case None
  then have "i \<notin> dismisses ` set (scheduled s)"
    by (simp add: assms(1) map_of_eq_None_iff image_image)
  then show ?thesis
    using None by (auto simp: dismiss_def Let_def filter_id_conv intro!: filter_True [symmetric])
next
  case (Some h)
  then have "(i, h) \<in> set (timers s)"
    by (rule map_of_SomeD)
  then obtain t where t: "t \<in> set (scheduled s)" "dismisses t = i" "handle t = h"
    by (auto simp: assms(1))
  then have "handle u = h \<longleftrightarrow> dismisses u = i" if "u \<in> set (scheduled s)" for u
    using that assms(2,3) by (auto simp: distinct_map dest: inj_onD)
  then show ?thesis
    using Some by (simp add: dismiss_def clearTimeout_def Let_def cong: filter_cong)
qed

lemma map_filter_fst:
  assumes "map f xs = map g ys" and "\<And>x. P x = R (f x)" and "\<And>y. Q y = R (g y)"
  shows "map f (filter P xs) = map g (filter Q ys)"
proof -
  have "filter R (map f xs) = filter R (map g ys)"
    by (simp add: assms(1))
  then show ?thesis
    unfolding filter_map comp_def using assms(2,3) by presburger
qed

lemma toast_sim_dismiss:
  assumes "toast_sim s a"
  shows "toast_sim (dismiss i s) (toast_spec_exec (Dismiss i) a)"
proof -
  have s: "scheduled (dismiss i s) = filter (\<lambda>t. dismisses t \<noteq> i) (scheduled s)"
    by (rule scheduled_dismiss [OF toast_simD(5) toast_sim_distinct(1) toast_simD(8)]) (rule assms)+
  note m = toast_simD(4) [OF assms]
  have "map (\<lambda>t. (dismisses t, due t)) (filter (\<lambda>t. dismisses t \<noteq> i) (scheduled s)) =
      map (\<lambda>p. (toast_id (fst p), snd p + 4000)) (filter (\<lambda>p. toast_id (fst p) \<noteq> i) (spec_items a))"
    by (rule map_filter_fst [OF m, where R = "\<lambda>q. fst q \<noteq> i"]) simp_all
  then show ?thesis
    using toast_simD [OF assms] unfolding toast_sim_def s
    by (auto simp: filter_map comp_def distinct_map_filter)
qed

lemma fire_scheduled:
  assumes "toast_sim s a" "t \<in> set (scheduled s)"
  shows "fire t s = dismiss (dismisses t) s"
proof -
  have "distinct (map fst (timers s))" "(dismisses t, handle t) \<in> set (timers s)"
    using assms(2) toast_sim_distinct(1) [OF assms(1)] by (auto simp: toast_simD(5) [OF assms(1)] comp_def)
  then have "map_of (timers s) (dismisses t) = Some (handle t)"
    by simp
  then show ?thesis
    by (simp add: fire_def dismiss_def clearTimeout_def Let_def)
qed

lemma toast_sim_fire:
  assumes "toast_sim s a" "set ts \<subseteq> set (scheduled s)" "distinct (map dismisses ts)"
  shows "toast_sim (fold fire ts s)
    (a\<lparr>spec_items := filter (\<lambda>p. toast_id (fst p) \<notin> dismisses ` set ts) (spec_items a)\<rparr>)"
  using assms
proof (induction ts arbitrary: s a)
  case (Cons t ts)
  let ?s = "dismiss (dismisses t) s" and ?a = "toast_spec_exec (Dismiss (dismisses t)) a"
  have f: "fire t s = ?s"
    using fire_scheduled Cons.prems by simp
  have sim: "toast_sim ?s ?a"
    by (rule toast_sim_dismiss [OF Cons.prems(1)])
  have "scheduled ?s = filter (\<lambda>u. dismisses u \<noteq> dismisses t) (scheduled s)"
    by (rule scheduled_dismiss [OF toast_simD(5) toast_sim_distinct(1) toast_simD(8)]) (rule Cons.prems(1))+
  then have "set ts \<subseteq> set (scheduled ?s)"
    using Cons.prems(2,3) by (auto simp: image_iff)
  from Cons.IH [OF sim this] Cons.prems(3) show ?case
    by (simp add: f filter_filter conj_commute)
qed simp

text \<open>A notification's timer is due exactly when the notification is too old.\<close>

lemma timer_due_iff:
  assumes "toast_sim s a" "p \<in> set (spec_items a)"
  shows "toast_id (fst p) \<in> dismisses ` set (filter (\<lambda>t. due t \<le> n) (scheduled s)) \<longleftrightarrow> snd p + 4000 \<le> n"
proof -
  have im: "(\<lambda>t. (dismisses t, due t)) ` set (scheduled s) = (\<lambda>p. (toast_id (fst p), snd p + 4000)) ` set (spec_items a)"
    using toast_simD(4) [OF assms(1)] by (metis list.set_map)
  have dis: "inj_on (\<lambda>p. toast_id (fst p)) (set (spec_items a))"
    using toast_simD(6) [OF assms(1)] by (simp add: toast_simD(3) [OF assms(1)] distinct_map comp_def)
  have d: "due t = snd p + 4000" if t: "t \<in> set (scheduled s)" "dismisses t = toast_id (fst p)" for t
  proof -
    have "(dismisses t, due t) \<in> (\<lambda>p. (toast_id (fst p), snd p + 4000)) ` set (spec_items a)"
      unfolding im [symmetric] using t(1) by (rule imageI)
    then obtain q where "q \<in> set (spec_items a)" "toast_id (fst q) = toast_id (fst p)" "due t = snd q + 4000"
      using t(2) by auto
    then show ?thesis
      using inj_onD [OF dis, of q p] assms(2) by simp
  qed
  have "(toast_id (fst p), snd p + 4000) \<in> (\<lambda>t. (dismisses t, due t)) ` set (scheduled s)"
    unfolding im using assms(2) by (rule imageI)
  then obtain t where "t \<in> set (scheduled s)" "dismisses t = toast_id (fst p)"
    by auto
  with d show ?thesis
    by (force simp: image_iff)
qed

lemma toast_sim_tick:
  assumes "toast_sim s a"
  shows "toast_sim (tick d s) (toast_spec_exec (Tick d) a)"
proof -
  let ?s = "s\<lparr>clock := clock s + d\<rparr>" and ?a = "a\<lparr>spec_clock := spec_clock a + d\<rparr>"
  let ?ts = "filter (\<lambda>t. due t \<le> clock s + d) (scheduled s)"
  have sim: "toast_sim ?s ?a"
    using toast_simD [OF assms] by (simp add: toast_sim_def)
  have "set ?ts \<subseteq> set (scheduled ?s)" "distinct (map dismisses ?ts)"
    using toast_sim_distinct(1) [OF assms] by (auto simp: distinct_map_filter)
  from toast_sim_fire [OF sim this]
  have "toast_sim (tick d s)
      (?a\<lparr>spec_items := filter (\<lambda>p. toast_id (fst p) \<notin> dismisses ` set ?ts) (spec_items a)\<rparr>)"
    by (simp add: tick_def Let_def)
  moreover have "filter (\<lambda>p. toast_id (fst p) \<notin> dismisses ` set ?ts) (spec_items a) =
      filter (\<lambda>p. spec_clock a + d < snd p + 4000) (spec_items a)"
    using timer_due_iff [OF assms, of _ "clock s + d"] toast_simD(2) [OF assms]
    by (intro filter_cong) (auto simp: not_le)
  ultimately show ?thesis
    by simp
qed

lemma toast_sim_show:
  assumes "toast_sim s a"
  shows "toast_sim (show_toast m t s) (toast_spec_exec (Show m t) a)"
proof -
  have "map fst (timers s) = map toast_id (items s)"
    using toast_sim_distinct(2) [OF assms] by (simp add: toast_simD(5) [OF assms] comp_def)
  then have "Suc (sequence s) \<notin> set (map fst (timers s))"
    using toast_simD(7) [OF assms] by auto
  then have "timers (show_toast m t s) = timers s @ [(Suc (sequence s), next_handle s)]"
    by (simp add: show_toast_def setTimeout_def Let_def assoc_set_absent)
  then show ?thesis
    using toast_simD [OF assms]
    by (simp add: toast_sim_def) (auto simp: show_toast_def setTimeout_def Let_def less_Suc_eq le_Suc_eq)
qed

lemma toast_sim_step: "toast_sim s a \<Longrightarrow> toast_sim (toast_exec e s) (toast_spec_exec e a)"
  by (cases e) (simp_all only: toast_exec.simps toast_sim_show toast_sim_dismiss toast_sim_tick)

interpretation ts: simulation toast_exec toast_spec_exec toast_sim
  by unfold_locales (rule toast_sim_step)

lemma scheduled_unmount:
  "scheduled (toast_unmount s) = filter (\<lambda>t. handle t \<notin> snd ` set (timers s)) (scheduled s)"
proof -
  have "scheduled (fold (\<lambda>p. clearTimeout (snd p)) ps s) = filter (\<lambda>t. handle t \<notin> snd ` set ps) (scheduled s)" for ps
    by (induction ps arbitrary: s) (simp_all add: clearTimeout_def filter_filter conj_commute)
  then show ?thesis
    by (simp add: toast_unmount_def)
qed

text \<open>
  C16.  The store shows exactly what it promises: after any sequence of notifications, dismissals
  and passing time, the region shows, in the order they were shown and each under its own
  identifier, the notifications that were neither dismissed nor older than 4000 milliseconds; and
  when the provider unmounts, no timer of the store is left to fire.
\<close>

theorem toast_region_refines:
  "ToastRegion (fold toast_exec es toast_init) =
     map (toast_row \<circ> fst) (spec_items (fold toast_spec_exec es toast_spec_init)) \<and>
   distinct (map fst (ToastRegion (fold toast_exec es toast_init))) \<and>
   scheduled (toast_unmount (fold toast_exec es toast_init)) = []"
proof -
  note sim = ts.sim_run [OF toast_sim_init, of es]
  show ?thesis
    using toast_simD(3,5,6) [OF sim]
    by (auto simp: ToastRegion_def toast_context_def scheduled_unmount toast_row_def comp_def image_image filter_empty_conv)
qed

end
