(* ===== verification/Records_View.thy ===== *)
theory Records_View
  imports Records_Store Toast_Store Auth_Store
begin

section \<open>The records workspace: \<open>modules/records/RecordsView.tsx\<close> and its dialogs\<close>

text \<open>
  The workspace extends the state of the store by its own: search, status filter, the dialogs and
  the busy flag, the fields of the open record dialog, and the notifications it shows.  \<open>save\<close> and
  \<open>remove_record\<close> are the segments of the source's functions up to their \<open>await\<close>;
  \<open>view_continuation\<close> is the rest.  \<open>records_step\<close> has a rule per event, with the condition under
  which the control is on the page and enabled; a dialog is modal, so the page behind it takes no
  input while it is open.  The permissions are those of the session \<open>a\<close>, and \<open>lower\<close> stands for
  \<open>toLocaleLowerCase\<close>, which depends on the locale of the engine.
\<close>

definition recordStatusLabels :: "record_status \<Rightarrow> jstr" where
  "recordStatusLabels s =
     (case s of
        Draft \<Rightarrow> [0x8349, 0x7A3F]
      | Active \<Rightarrow> [0x542F, 0x7528]
      | Archived \<Rightarrow> [0x5DF2, 0x5F52, 0x6863])"

definition recordFilterLabels :: "record_status option \<Rightarrow> jstr" where
  "recordFilterLabels f = (case f of None \<Rightarrow> [0x5168, 0x90E8] | Some s \<Rightarrow> recordStatusLabels s)"

definition status_filters :: "record_status option list" where
  "status_filters = [None, Some Draft, Some Active, Some Archived]"

definition StatusBadge :: "record_status \<Rightarrow> jstr \<times> jstr" where
  "StatusBadge s = (lit ''status-badge '' @ record_status_value s, recordStatusLabels s)"

record record_form =
  form_title :: jstr
  form_status :: record_status

record records_view = records_store +
  search_query :: jstr
  status_filter :: "record_status option"
  editing :: "record_item option"
  deleting :: "record_item option"
  editorOpen :: bool
  rec_busy :: bool
  form :: record_form
  toasts :: toast_state

definition form_for :: "record_item option \<Rightarrow> record_form" where
  "form_for r =
     (case r of
        None \<Rightarrow> \<lparr>form_title = [], form_status = Draft\<rparr>
      | Some x \<Rightarrow> \<lparr>form_title = rec_title x, form_status = rec_status x\<rparr>)"

text \<open>The view mounts with an empty store, and its effect starts the load.\<close>

definition load_effect :: "'m records_store_scheme \<Rightarrow> 'm records_store_scheme" where
  "load_effect s = (if loaded s then s else records_load s)"

definition records_mount :: records_view where
  "records_mount = load_effect (records_store.extend records_init
     \<lparr>search_query = [], status_filter = None, editing = None, deleting = None, editorOpen = False,
      rec_busy = False, form = form_for None, toasts = toast_init\<rparr>)"

definition forbidden :: "'m records_store_scheme \<Rightarrow> bool" where
  "forbidden s \<longleftrightarrow> errorStatus s = Some 403"

definition visibleRecords :: "(jstr \<Rightarrow> jstr) \<Rightarrow> records_view \<Rightarrow> record_item list" where
  "visibleRecords lower w =
     (let needle = lower (js_trim (search_query w))
      in filter (\<lambda>r. (case status_filter w of None \<Rightarrow> True | Some s \<Rightarrow> rec_status r = s) \<and>
                     (needle = [] \<or> js_includes (lower (rec_title r)) needle)) (record_items w))"

datatype records_panel =
    ForbiddenPanel jstr
  | InlineError jstr
  | LoadingTable
  | RecordTable "record_item list"
  | NoMatches
  | NoRecords

definition records_display :: "(jstr \<Rightarrow> jstr) \<Rightarrow> records_view \<Rightarrow> records_panel" where
  "records_display lower w =
     (if forbidden w then ForbiddenPanel (rec_error w)
      else if rec_error w \<noteq> [] \<and> \<not> rec_loading w then InlineError (rec_error w)
      else if rec_loading w \<and> \<not> loaded w then LoadingTable
      else if visibleRecords lower w \<noteq> [] then RecordTable (visibleRecords lower w)
      else if record_items w \<noteq> [] then NoMatches else NoRecords)"

definition record_formatDate :: "(jstr \<Rightarrow> jstr option) \<Rightarrow> jstr \<Rightarrow> jstr" where
  "record_formatDate engine value = (case engine value of None \<Rightarrow> lit ''--'' | Some t \<Rightarrow> t)"

text \<open>A row: the title is a button when records can be edited, and the row has the buttons the
  permissions allow.\<close>

record record_row =
  row_title :: jstr
  row_title_edits :: bool
  row_id :: jstr
  row_badge :: "jstr \<times> jstr"
  row_updated :: jstr
  row_edit :: bool
  row_delete :: bool

definition render_row :: "(jstr \<Rightarrow> jstr option) \<Rightarrow> auth_state \<Rightarrow> record_item \<Rightarrow> record_row" where
  "render_row engine a r =
     \<lparr>row_title = rec_title r, row_title_edits = can a (lit ''records.update''), row_id = rec_id r,
      row_badge = StatusBadge (rec_status r), row_updated = record_formatDate engine (rec_updated_at r),
      row_edit = can a (lit ''records.update''), row_delete = can a (lit ''records.delete'')\<rparr>"

subsection \<open>Handlers\<close>

definition openCreate :: "records_view \<Rightarrow> records_view" where
  "openCreate w = w\<lparr>editing := None, editorOpen := True, form := form_for None\<rparr>"

definition openEdit :: "record_item \<Rightarrow> records_view \<Rightarrow> records_view" where
  "openEdit r w = w\<lparr>editing := Some r, editorOpen := True, form := form_for (Some r)\<rparr>"

definition save :: "record_input \<Rightarrow> records_view \<Rightarrow> records_view" where
  "save x w =
     (case editing w of
        Some r \<Rightarrow> records_update r x (w\<lparr>rec_busy := True\<rparr>)
      | None \<Rightarrow> records_create x (w\<lparr>rec_busy := True\<rparr>))"

text \<open>The properties the workspace passes to its record dialog.\<close>

record record_dialog_props =
  props_record :: "record_item option"
  props_busy :: bool
  onClose :: "records_view \<Rightarrow> records_view"
  onSubmit :: "record_input \<Rightarrow> records_view \<Rightarrow> records_view"

definition editor_props :: "records_view \<Rightarrow> record_dialog_props" where
  "editor_props w =
     \<lparr>props_record = editing w, props_busy = rec_busy w, onClose = (\<lambda>v. v\<lparr>editorOpen := False\<rparr>), onSubmit = save\<rparr>"

lemma editor_props_simps [simp]:
  "props_record (editor_props w) = editing w" "props_busy (editor_props w) = rec_busy w"
  "onClose (editor_props w) v = v\<lparr>editorOpen := False\<rparr>" "onSubmit (editor_props w) = save"
  by (simp_all add: editor_props_def)

definition submit_record :: "records_view \<Rightarrow> records_view" where
  "submit_record w =
     (let normalized = js_trim (form_title (form w))
      in if normalized \<noteq> []
         then onSubmit (editor_props w) \<lparr>input_title = normalized, input_status = form_status (form w)\<rparr> w else w)"

definition remove_record :: "records_view \<Rightarrow> records_view" where
  "remove_record w =
     (case deleting w of None \<Rightarrow> w | Some r \<Rightarrow> records_remove r (w\<lparr>rec_busy := True\<rparr>))"

text \<open>The properties of the delete dialog, for the record that is to be deleted.\<close>

record delete_dialog_props =
  delete_record :: record_item
  delete_busy :: bool
  delete_onClose :: "records_view \<Rightarrow> records_view"
  onConfirm :: "records_view \<Rightarrow> records_view"

definition removal_props :: "record_item \<Rightarrow> records_view \<Rightarrow> delete_dialog_props" where
  "removal_props r w =
     \<lparr>delete_record = r, delete_busy = rec_busy w, delete_onClose = (\<lambda>v. v\<lparr>deleting := None\<rparr>), onConfirm = remove_record\<rparr>"

lemma removal_props_simps [simp]:
  "delete_record (removal_props r w) = r" "delete_busy (removal_props r w) = rec_busy w"
  "delete_onClose (removal_props r w) v = v\<lparr>deleting := None\<rparr>" "onConfirm (removal_props r w) = remove_record"
  by (simp_all add: removal_props_def)

definition record_updated_text :: jstr where
  "record_updated_text = [0x8BB0, 0x5F55, 0x5DF2, 0x66F4, 0x65B0]"

definition record_created_text :: jstr where
  "record_created_text = [0x8BB0, 0x5F55, 0x5DF2, 0x521B, 0x5EFA]"

definition record_deleted_text :: jstr where
  "record_deleted_text = [0x8BB0, 0x5F55, 0x5DF2, 0x5220, 0x9664]"

definition save_failed_text :: jstr where
  "save_failed_text =
     [0x8BB0, 0x5F55, 0x4FDD, 0x5B58, 0x5931, 0x8D25, 0xFF0C, 0x8BF7, 0x91CD, 0x8BD5,
      0x3002]"

definition delete_failed_text :: jstr where
  "delete_failed_text =
     [0x8BB0, 0x5F55, 0x5220, 0x9664, 0x5931, 0x8D25, 0xFF0C, 0x8BF7, 0x91CD, 0x8BD5,
      0x3002]"

definition notify :: "jstr \<Rightarrow> tone option \<Rightarrow> records_view \<Rightarrow> records_view" where
  "notify m t w = w\<lparr>toasts := show_toast m t (toasts w)\<rparr>"

definition save_settled :: "jstr \<Rightarrow> cause + unit \<Rightarrow> records_view \<Rightarrow> records_view" where
  "save_settled message res w =
     (case res of
        Inr _ \<Rightarrow> (notify message None w)\<lparr>editorOpen := False, rec_busy := False\<rparr>
      | Inl c \<Rightarrow> (notify (cause_message save_failed_text c) (Some ErrorTone) w)\<lparr>rec_busy := False\<rparr>)"

definition removal_settled :: "cause + unit \<Rightarrow> records_view \<Rightarrow> records_view" where
  "removal_settled res w =
     (case res of
        Inr _ \<Rightarrow> (notify record_deleted_text None (w\<lparr>deleting := None\<rparr>))\<lparr>rec_busy := False\<rparr>
      | Inl c \<Rightarrow> (notify (cause_message delete_failed_text c) (Some ErrorTone) w)\<lparr>rec_busy := False\<rparr>)"

fun view_continuation :: "rec_call \<Rightarrow> cause + unit \<Rightarrow> records_view \<Rightarrow> records_view" where
  "view_continuation LoadCall res w = w"
| "view_continuation (CreateCall x) res w = save_settled record_created_text res w"
| "view_continuation (UpdateCall r x) res w = save_settled record_updated_text res w"
| "view_continuation (RemoveCall r) res w = removal_settled res w"

definition view_settle :: "nat \<Rightarrow> fetch_outcome \<Rightarrow> records_view \<Rightarrow> records_view option" where
  "view_settle i oc w =
     map_option (\<lambda>(c, w', res). view_continuation c res w') (records_settle i oc w)"

subsection \<open>Events\<close>

definition page_active :: "records_view \<Rightarrow> bool" where
  "page_active w \<longleftrightarrow> \<not> editorOpen w \<and> deleting w = None"

definition create_shown :: "(jstr \<Rightarrow> jstr) \<Rightarrow> auth_state \<Rightarrow> records_view \<Rightarrow> bool" where
  "create_shown lower a w \<longleftrightarrow>
     \<not> forbidden w \<and> can a (lit ''records.create'') \<or>
     records_display lower w = NoRecords \<and> can a (lit ''records.create'')"

definition row_shown :: "(jstr \<Rightarrow> jstr) \<Rightarrow> records_view \<Rightarrow> record_item \<Rightarrow> bool" where
  "row_shown lower w r \<longleftrightarrow> (case records_display lower w of RecordTable rs \<Rightarrow> r \<in> set rs | _ \<Rightarrow> False)"

definition retry_shown :: "(jstr \<Rightarrow> jstr) \<Rightarrow> records_view \<Rightarrow> bool" where
  "retry_shown lower w \<longleftrightarrow> (case records_display lower w of InlineError m \<Rightarrow> True | _ \<Rightarrow> False)"

text \<open>What a user can do: the control has to be on the page and enabled, and the length limit of the
  title field lets a longer text, one the server sent, only become shorter.\<close>

inductive records_user :: "(jstr \<Rightarrow> jstr) \<Rightarrow> auth_state \<Rightarrow> records_view \<Rightarrow> records_view \<Rightarrow> bool" for lower a where
  refresh: "page_active w \<Longrightarrow> \<not> forbidden w \<Longrightarrow> \<not> rec_loading w \<Longrightarrow> records_user lower a w (records_load w)"
| retry: "page_active w \<Longrightarrow> retry_shown lower w \<Longrightarrow> records_user lower a w (records_load w)"
| search: "page_active w \<Longrightarrow> \<not> forbidden w \<Longrightarrow> records_user lower a w (w\<lparr>search_query := q\<rparr>)"
| filter_tab: "page_active w \<Longrightarrow> \<not> forbidden w \<Longrightarrow> f \<in> set status_filters \<Longrightarrow>
    records_user lower a w (w\<lparr>status_filter := f\<rparr>)"
| open_create: "page_active w \<Longrightarrow> create_shown lower a w \<Longrightarrow> records_user lower a w (openCreate w)"
| open_edit: "page_active w \<Longrightarrow> row_shown lower w r \<Longrightarrow> can a (lit ''records.update'') \<Longrightarrow>
    records_user lower a w (openEdit r w)"
| ask_delete: "page_active w \<Longrightarrow> row_shown lower w r \<Longrightarrow> can a (lit ''records.delete'') \<Longrightarrow>
    records_user lower a w (w\<lparr>deleting := Some r\<rparr>)"
| edit_title: "editorOpen w \<Longrightarrow> length t \<le> max 200 (length (form_title (form w))) \<Longrightarrow>
    records_user lower a w (w\<lparr>form := (form w)\<lparr>form_title := t\<rparr>\<rparr>)"
| edit_status: "editorOpen w \<Longrightarrow> records_user lower a w (w\<lparr>form := (form w)\<lparr>form_status := s\<rparr>\<rparr>)"
| close_editor: "editorOpen w \<Longrightarrow> records_user lower a w (onClose (editor_props w) w)"
| close_delete: "deleting w = Some r \<Longrightarrow> records_user lower a w (delete_onClose (removal_props r w) w)"
| submit: "editorOpen w \<Longrightarrow> \<not> rec_busy w \<Longrightarrow> js_trim (form_title (form w)) \<noteq> [] \<Longrightarrow>
    records_user lower a w (submit_record w)"
| confirm: "deleting w = Some r \<Longrightarrow> \<not> rec_busy w \<Longrightarrow> records_user lower a w (onConfirm (removal_props r w) w)"

text \<open>A step is a user's event, the outcome of a call, or an event of the notifications.\<close>

inductive records_step :: "(jstr \<Rightarrow> jstr) \<Rightarrow> auth_state \<Rightarrow> records_view \<Rightarrow> records_view \<Rightarrow> bool" for lower a where
  user: "records_user lower a w w' \<Longrightarrow> records_step lower a w w'"
| settle: "view_settle i oc w = Some w' \<Longrightarrow> records_step lower a w w'"
| notification: "records_step lower a w (w\<lparr>toasts := toast_exec e (toasts w)\<rparr>)"

subsection \<open>The invariant\<close>

fun allowed :: "auth_state \<Rightarrow> rec_call \<Rightarrow> bool" where
  "allowed a LoadCall = True"
| "allowed a (CreateCall x) = can a (lit ''records.create'')"
| "allowed a (UpdateCall r x) = can a (lit ''records.update'')"
| "allowed a (RemoveCall r) = can a (lit ''records.delete'')"

definition title_ok :: "rec_call \<Rightarrow> bool" where
  "title_ok c \<longleftrightarrow>
     (case c of
        CreateCall x \<Rightarrow> input_title x \<noteq> [] \<and> js_trim (input_title x) = input_title x \<and> length (input_title x) \<le> 200
      | UpdateCall r x \<Rightarrow> input_title x \<noteq> [] \<and> js_trim (input_title x) = input_title x \<and>
          length (input_title x) \<le> max 200 (length (rec_title r))
      | _ \<Rightarrow> True)"

definition calls_ok :: "'m records_store_scheme \<Rightarrow> bool \<Rightarrow> bool" where
  "calls_ok s b \<longleftrightarrow>
     distinct (map fst (calls s)) \<and> (\<forall>p \<in> set (calls s). fst p < next_rec s) \<and>
     (rec_loading s \<longleftrightarrow> loadPromise s \<noteq> None) \<and>
     filter (\<lambda>p. is_load (snd p)) (calls s) = (case loadPromise s of None \<Rightarrow> [] | Some i \<Rightarrow> [(i, LoadCall)]) \<and>
     length (filter (\<lambda>p. \<not> is_load (snd p)) (calls s)) = (if b then 1 else 0)"

definition dialogs_ok :: "auth_state \<Rightarrow> records_view \<Rightarrow> bool" where
  "dialogs_ok a w \<longleftrightarrow>
     (editorOpen w \<longrightarrow>
        (case editing w of
           None \<Rightarrow> can a (lit ''records.create'') \<and> length (form_title (form w)) \<le> 200
         | Some r \<Rightarrow> can a (lit ''records.update'') \<and> length (form_title (form w)) \<le> max 200 (length (rec_title r)))) \<and>
     (deleting w \<noteq> None \<longrightarrow> can a (lit ''records.delete''))"

definition records_inv :: "auth_state \<Rightarrow> records_view \<Rightarrow> bool" where
  "records_inv a w \<longleftrightarrow>
     calls_ok w (rec_busy w) \<and> dialogs_ok a w \<and> (\<forall>p \<in> set (calls w). allowed a (snd p) \<and> title_ok (snd p))"

lemma length_js_trim: "length (js_trim s) \<le> length s"
proof -
  have "length (dropWhile is_js_space (rev (dropWhile is_js_space s))) \<le> length (rev (dropWhile is_js_space s))"
    by (rule length_dropWhile_le)
  also have "\<dots> \<le> length s"
    by (simp add: length_dropWhile_le)
  finally show ?thesis
    by (simp add: js_trim_def)
qed

lemma calls_ok_load: "calls_ok s b \<Longrightarrow> calls_ok (records_load s) b"
  by (auto simp: calls_ok_def records_load_def issue_def less_Suc_eq split: option.splits)

lemma calls_ok_issue: "calls_ok s False \<Longrightarrow> \<not> is_load c \<Longrightarrow> calls_ok (issue c s) True"
  by (auto simp: calls_ok_def issue_def less_Suc_eq)

lemma continuation_frame:
  assumes "continuation c res s = Some (s', r)"
  shows "calls s' = calls s" "next_rec s' = next_rec s"
    "is_load c \<Longrightarrow> loadPromise s' = None \<and> \<not> rec_loading s'"
    "\<not> is_load c \<Longrightarrow> loadPromise s' = loadPromise s \<and> rec_loading s' = rec_loading s"
    "records_store.more s' = records_store.more s"
  using assms by (cases c; auto simp: load_settled_def create_settled_def update_settled_def remove_settled_def
      Let_def split: sum.splits)+

lemma one_element: "length xs \<le> 1 \<Longrightarrow> x \<in> set xs \<Longrightarrow> xs = [x]"
  by (cases xs) auto

lemma records_settle_frame:
  assumes "records_settle i oc s = Some (c, s', r)"
  shows "(i, c) \<in> set (calls s)" "calls s' = filter (\<lambda>p. fst p \<noteq> i) (calls s)" "next_rec s' = next_rec s"
    "is_load c \<Longrightarrow> loadPromise s' = None \<and> \<not> rec_loading s'"
    "\<not> is_load c \<Longrightarrow> loadPromise s' = loadPromise s \<and> rec_loading s' = rec_loading s"
    "records_store.more s' = records_store.more s"
proof -
  have c: "map_of (calls s) i = Some c"
    by (rule records_settle_call [OF assms])
  then show "(i, c) \<in> set (calls s)"
    by (rule map_of_SomeD)
  have "continuation c (api_result (rec_path c) oc) (s\<lparr>calls := filter (\<lambda>p. fst p \<noteq> i) (calls s)\<rparr>) = Some (s', r)"
    using assms c by (auto simp: records_settle_def)
  note f = continuation_frame [OF this, simplified]
  show "calls s' = filter (\<lambda>p. fst p \<noteq> i) (calls s)" "next_rec s' = next_rec s"
    "is_load c \<Longrightarrow> loadPromise s' = None \<and> \<not> rec_loading s'"
    "\<not> is_load c \<Longrightarrow> loadPromise s' = loadPromise s \<and> rec_loading s' = rec_loading s"
    "records_store.more s' = records_store.more s"
    using f by simp_all
qed

lemma filter_other_calls:
  assumes "distinct (map fst ps)" "(i, c) \<in> set ps" "\<not> P (i, c)"
  shows "filter P (filter (\<lambda>p. fst p \<noteq> i) ps) = filter P ps"
proof -
  have "p = (i, c)" if "p \<in> set ps" "fst p = i" for p
    using that assms inj_onD [of fst "set ps" p "(i, c)"] by (simp add: distinct_map)
  then show ?thesis
    using assms(3) by (auto intro!: filter_cong)
qed

lemma calls_ok_settle_load:
  assumes "calls_ok s b" "records_settle i oc s = Some (c, s', r)" "is_load c"
  shows "calls_ok s' b"
proof -
  note f = records_settle_frame [OF assms(2)]
  have l: "filter (\<lambda>p. is_load (snd p)) (calls s) = (case loadPromise s of None \<Rightarrow> [] | Some j \<Rightarrow> [(j, LoadCall)])"
    using assms(1) by (simp only: calls_ok_def)
  have "(i, c) \<in> set (filter (\<lambda>p. is_load (snd p)) (calls s))"
    using f(1) assms(3) by simp
  then have "loadPromise s = Some i"
    unfolding l by (simp split: option.splits)
  then have "filter (\<lambda>p. fst p \<noteq> i) (filter (\<lambda>p. is_load (snd p)) (calls s)) = []"
    unfolding l by simp
  then have "filter (\<lambda>p. is_load (snd p)) (calls s') = []"
    unfolding f(2) by (simp add: conj_commute)
  moreover have "filter (\<lambda>p. \<not> is_load (snd p)) (calls s') = filter (\<lambda>p. \<not> is_load (snd p)) (calls s)"
    unfolding f(2) using assms(1,3) f(1) by (intro filter_other_calls) (simp_all add: calls_ok_def)
  ultimately show ?thesis
    using assms(1) f(4) [OF assms(3)] by (simp add: calls_ok_def) (simp add: f(2,3) distinct_map_filter)
qed

lemma calls_ok_settle_mutation:
  assumes "calls_ok s b" "records_settle i oc s = Some (c, s', r)" "\<not> is_load c"
  shows "b" "calls_ok s' False"
proof -
  note f = records_settle_frame [OF assms(2)]
  have m: "(i, c) \<in> set (filter (\<lambda>p. \<not> is_load (snd p)) (calls s))"
    using f(1) assms(3) by simp
  then have "filter (\<lambda>p. \<not> is_load (snd p)) (calls s) \<noteq> []"
    by (metis empty_iff list.set(1))
  then show b
    using assms(1) by (auto simp: calls_ok_def split: if_splits)
  have "filter (\<lambda>p. \<not> is_load (snd p)) (calls s) = [(i, c)]"
    using assms(1) m by (intro one_element) (simp_all add: calls_ok_def)
  then have "filter (\<lambda>p. fst p \<noteq> i) (filter (\<lambda>p. \<not> is_load (snd p)) (calls s)) = []"
    by simp
  then have "filter (\<lambda>p. \<not> is_load (snd p)) (calls s') = []"
    unfolding f(2) by (simp add: conj_commute)
  moreover have "filter (\<lambda>p. is_load (snd p)) (calls s') = filter (\<lambda>p. is_load (snd p)) (calls s)"
    unfolding f(2) using assms(1,3) f(1) by (intro filter_other_calls) (simp_all add: calls_ok_def)
  ultimately show "calls_ok s' False"
    using assms(1) f(5) [OF assms(3)] by (simp add: calls_ok_def) (simp add: f(2,3) distinct_map_filter)
qed

lemma calls_ok_settle:
  assumes "calls_ok s b" "records_settle i oc s = Some (c, s', r)"
  shows "calls_ok s' (b \<and> is_load c)" "\<not> is_load c \<Longrightarrow> b"
  using calls_ok_settle_load [OF assms] calls_ok_settle_mutation [OF assms] by (cases "is_load c"; simp)+

lemma view_settle_inv [inv_intros]:
  assumes "records_inv a w" "view_settle i oc w = Some w'"
  shows "records_inv a w'"
proof -
  obtain c s' r where s: "records_settle i oc w = Some (c, s', r)" and w': "w' = view_continuation c r s'"
    using assms(2) by (auto simp: view_settle_def)
  note f = records_settle_frame [OF s]
  have more: "editorOpen s' = editorOpen w" "editing s' = editing w" "deleting s' = deleting w" "form s' = form w"
      "rec_busy s' = rec_busy w"
    using f(6) by (cases w, cases s', simp)+
  have "calls_ok s' (rec_busy w \<and> is_load c)" and b: "\<not> is_load c \<Longrightarrow> rec_busy w"
    using calls_ok_settle [OF _ s] assms(1) by (auto simp: records_inv_def)
  moreover have "calls w' = calls s'" "next_rec w' = next_rec s'" "loadPromise w' = loadPromise s'"
      "rec_loading w' = rec_loading s'" "rec_busy w' = (rec_busy w \<and> is_load c)"
      "form w' = form s'" "editing w' = editing s'" "editorOpen w' \<Longrightarrow> editorOpen s'" "deleting w' \<noteq> None \<Longrightarrow> deleting s' = deleting w'"
    unfolding w' using more
    by (cases c; auto simp: save_settled_def removal_settled_def notify_def split: sum.splits)+
  ultimately show ?thesis
    using assms(1) more by (auto simp: records_inv_def calls_ok_def dialogs_ok_def f(2) split: option.splits)
qed

lemma records_load_frame [simp]:
  "editorOpen (records_load w) = editorOpen w" "editing (records_load w) = editing w" "form (records_load w) = form w"
  "deleting (records_load w) = deleting w" "rec_busy (records_load w) = rec_busy w"
  "set (calls (records_load w)) \<subseteq> insert (next_rec w, LoadCall) (set (calls w))"
  by (auto simp: records_load_def issue_def split: option.splits)

lemma records_load_inv [inv_intros]: "records_inv a w \<Longrightarrow> records_inv a (records_load w)"
proof -
  assume i: "records_inv a w"
  have "dialogs_ok a (records_load w) = dialogs_ok a w"
    by (simp add: dialogs_ok_def split: option.split)
  moreover have "allowed a (snd p) \<and> title_ok (snd p)" if "p \<in> set (calls (records_load w))" for p
  proof -
    have "p = (next_rec w, LoadCall) \<or> p \<in> set (calls w)"
      using records_load_frame(6) [of w] that by blast
    then show ?thesis
      using i by (auto simp: records_inv_def title_ok_def)
  qed
  ultimately show ?thesis
    using i by (simp add: records_inv_def calls_ok_load)
qed

lemma dialogs_ok_issue [simp]: "dialogs_ok a (issue c (w\<lparr>rec_busy := b\<rparr>)) = dialogs_ok a w"
  by (simp add: dialogs_ok_def issue_def split: option.split)

lemma issue_frame [simp]:
  "rec_busy (issue c (w\<lparr>rec_busy := b\<rparr>)) = b"
  "set (calls (issue c (w\<lparr>rec_busy := b\<rparr>))) = insert (next_rec w, c) (set (calls w))"
  by (simp_all add: issue_def)

lemma submit_inv [inv_intros]:
  assumes "records_inv a w" "editorOpen w" "\<not> rec_busy w"
  shows "records_inv a (submit_record w)"
proof (cases "js_trim (form_title (form w)) = []")
  case False
  define x where "x = \<lparr>input_title = js_trim (form_title (form w)), input_status = form_status (form w)\<rparr>"
  define c where "c = (case editing w of None \<Rightarrow> CreateCall x | Some r \<Rightarrow> UpdateCall r x)"
  have e: "submit_record w = issue c (w\<lparr>rec_busy := True\<rparr>)"
    using False by (simp add: submit_record_def save_def c_def x_def records_update_def records_create_def split: option.split)
  have "calls_ok (w\<lparr>rec_busy := True\<rparr>) False"
    using assms by (simp add: records_inv_def calls_ok_def)
  then have "calls_ok (submit_record w) True"
    unfolding e by (rule calls_ok_issue) (simp add: c_def split: option.split)
  moreover have "allowed a c" "title_ok c"
    using assms False length_js_trim [of "form_title (form w)"]
    by (auto simp: records_inv_def dialogs_ok_def c_def x_def title_ok_def split: option.splits)
  ultimately show ?thesis
    using assms unfolding e by (simp add: records_inv_def)
qed (simp add: submit_record_def assms(1))

lemma remove_inv [inv_intros]:
  assumes "records_inv a w" "deleting w \<noteq> None" "\<not> rec_busy w"
  shows "records_inv a (remove_record w)"
proof -
  obtain r where r: "deleting w = Some r"
    using assms(2) by blast
  then have e: "remove_record w = issue (RemoveCall r) (w\<lparr>rec_busy := True\<rparr>)"
    by (simp add: remove_record_def records_remove_def)
  have "calls_ok (w\<lparr>rec_busy := True\<rparr>) False"
    using assms by (simp add: records_inv_def calls_ok_def)
  then have "calls_ok (remove_record w) True"
    unfolding e by (rule calls_ok_issue) simp
  then show ?thesis
    using assms r unfolding e by (simp add: records_inv_def title_ok_def) (simp add: dialogs_ok_def)
qed

lemma records_user_inv: "records_user lower a w w' \<Longrightarrow> records_inv a w \<Longrightarrow> records_inv a w'"
proof (induction rule: records_user.induct)
  case (open_create w)
  then show ?case
    by (auto simp: records_inv_def calls_ok_def dialogs_ok_def openCreate_def form_for_def create_shown_def)
next
  case (open_edit w r)
  then show ?case
    by (auto simp: records_inv_def calls_ok_def dialogs_ok_def openEdit_def form_for_def)
qed (auto intro: inv_intros, auto simp: records_inv_def calls_ok_def dialogs_ok_def split: option.splits)

lemma records_inv_toasts [simp]: "records_inv a (w\<lparr>toasts := t\<rparr>) = records_inv a w"
  by (simp add: records_inv_def calls_ok_def dialogs_ok_def split: option.split)

lemma records_step_inv: "records_step lower a w w' \<Longrightarrow> records_inv a w \<Longrightarrow> records_inv a w'"
  by (induction rule: records_step.induct) (auto intro: inv_intros dest: records_user_inv)

lemma records_mount_inv: "records_inv a records_mount"
proof -
  have "records_inv a (records_store.extend records_init
     \<lparr>search_query = [], status_filter = None, editing = None, deleting = None, editorOpen = False,
      rec_busy = False, form = form_for None, toasts = toast_init\<rparr>)"
    by (simp add: records_inv_def calls_ok_def dialogs_ok_def records_init_def records_store.extend_def)
  then show ?thesis
    by (simp add: records_mount_def load_effect_def records_load_inv)
qed

interpretation rv: invariant_system records_mount "records_step lower a" "records_inv a" for lower a
  by unfold_locales (rule records_mount_inv, erule (1) records_step_inv)

subsection \<open>Properties\<close>

definition sample_grants :: auth_state where
  "sample_grants = auth_init\<lparr>auth_grants := {lit ''records.create'', lit ''records.update''}\<rparr>"

definition draft_open :: "string \<Rightarrow> records_view \<Rightarrow> records_view" where
  "draft_open t w = (let u = openCreate w in u\<lparr>form := (form u)\<lparr>form_title := lit t\<rparr>\<rparr>)"

lemma draft_open_reachable:
  assumes "rtranclp (records_step lower a) records_mount w" "page_active w" "\<not> forbidden w"
    and "can a (lit ''records.create'')" "length t \<le> 200"
  shows "rtranclp (records_step lower a) records_mount (draft_open t w)"
proof -
  have "records_step lower a w (openCreate w)"
    using assms by (intro records_step.user records_user.open_create) (simp_all add: create_shown_def)
  moreover have "records_step lower a (openCreate w) (draft_open t w)"
    unfolding draft_open_def Let_def
    by (intro records_step.user records_user.edit_title) (use assms(5) in \<open>simp_all add: openCreate_def\<close>)
  ultimately show ?thesis
    using assms(1) by (meson rtranclp.rtrancl_into_rtrancl)
qed

lemma trim_word [simp]: "js_trim (lit ''a'') = lit ''a''"
  by (rule js_trim_fixed) (simp_all add: lit_def is_js_space_def)

definition saving :: records_view where
  "saving = submit_record (draft_open ''a'' records_mount)"

lemmas records_eval = draft_open_def openCreate_def records_mount_def load_effect_def
  records_load_def issue_def records_init_def records_store.extend_def submit_record_def save_def
  records_create_def form_for_def Let_def

lemma saving_reachable:
  assumes "can a (lit ''records.create'')"
  shows "rtranclp (records_step lower a) records_mount saving"
proof -
  have "rtranclp (records_step lower a) records_mount (draft_open ''a'' records_mount)"
    by (rule draft_open_reachable [OF rtranclp.rtrancl_refl])
      (simp_all add: assms page_active_def forbidden_def records_eval)
  moreover have "records_step lower a (draft_open ''a'' records_mount) saving"
    unfolding saving_def by (intro records_step.user records_user.submit) (simp_all add: records_eval)
  ultimately show ?thesis
    by (meson rtranclp.rtrancl_into_rtrancl)
qed

lemma saving_calls:
  "calls saving = [(0, LoadCall), (1, CreateCall \<lparr>input_title = lit ''a'', input_status = Draft\<rparr>)]"
  by (simp add: saving_def records_eval)

text \<open>
  C28.  One request of a kind at a time: in every state the workspace can reach, at most one load
  is in flight, the spinner turns exactly while it is, at most one mutation is in flight, and the
  busy flag, which disables the buttons that start one, is set exactly while it is.
\<close>

theorem records_one_at_a_time:
  assumes "rtranclp (records_step lower a) records_mount w"
  shows "length (filter (\<lambda>p. is_load (snd p)) (calls w)) = (if rec_loading w then 1 else 0) \<and>
    length (filter (\<lambda>p. \<not> is_load (snd p)) (calls w)) = (if rec_busy w then 1 else 0)"
  using rv.reach_inv [OF assms] by (auto simp: records_inv_def calls_ok_def split: option.splits)

theorem records_one_at_a_time_witness:
  "length (filter (\<lambda>p. \<not> is_load (snd p)) (calls saving)) = (if rec_busy saving then 1 else 0)"
  using records_one_at_a_time [OF saving_reachable [of sample_grants]] by (simp add: sample_grants_def can_def)

text \<open>
  C15.  The workspace sends only what the session is granted and the form allows: every mutation in
  flight is one whose permission the session has, and its title is not empty, has no white space
  at either end and, for a new record, at most 200 code units.
\<close>

theorem records_only_permitted:
  assumes "rtranclp (records_step lower a) records_mount w" and "(i, c) \<in> set (calls w)"
  shows "(\<forall>x. c = CreateCall x \<longrightarrow> can a (lit ''records.create'') \<and> length (input_title x) \<le> 200) \<and>
    (\<forall>r x. c = UpdateCall r x \<longrightarrow> can a (lit ''records.update'')) \<and>
    (\<forall>r. c = RemoveCall r \<longrightarrow> can a (lit ''records.delete'')) \<and>
    (\<forall>r x. c = CreateCall x \<or> c = UpdateCall r x \<longrightarrow> input_title x \<noteq> [] \<and> js_trim (input_title x) = input_title x)"
proof -
  have "allowed a c" "title_ok c"
    using rv.reach_inv [OF assms(1)] assms(2) by (auto simp: records_inv_def)
  then show ?thesis
    by (auto simp: title_ok_def)
qed

theorem records_only_permitted_witness:
  "can sample_grants (lit ''records.create'') \<and>
   (1, CreateCall \<lparr>input_title = lit ''a'', input_status = Draft\<rparr>) \<in> set (calls saving)"
proof -
  have c: "can sample_grants (lit ''records.create'')"
    by (simp add: sample_grants_def can_def)
  have m: "(1, CreateCall \<lparr>input_title = lit ''a'', input_status = Draft\<rparr>) \<in> set (calls saving)"
    by (simp add: saving_calls)
  show ?thesis
    using records_only_permitted [OF saving_reachable [OF c] m] m by blast
qed

text \<open>
  With the limit of the title field the length of a title that is sent is bounded: a new record's
  title has from 1 to 200 code units, and the title of a changed record at most 200, or as many as
  the record's title had when its dialog was opened, if that was longer.
\<close>

lemma record_title_bounds:
  assumes "rtranclp (records_step lower a) records_mount w" and "(i, c) \<in> set (calls w)"
  shows "(\<forall>x. c = CreateCall x \<longrightarrow> length (input_title x) \<in> {1..200}) \<and>
    (\<forall>r x. c = UpdateCall r x \<longrightarrow> length (input_title x) \<in> {1..max 200 (length (rec_title r))})"
proof -
  have "title_ok c"
    using rv.reach_inv [OF assms(1)] assms(2) by (auto simp: records_inv_def)
  then show ?thesis
    by (auto simp: title_ok_def Suc_le_eq)
qed

lemma mutation_feedback:
  assumes "view_settle i oc w = Some w'" and "map_of (calls w) i = Some c" and "\<not> is_load c"
  shows "\<exists>m. toasts w' =
    show_toast m (case api_result (rec_path c) oc of Inr v \<Rightarrow> None | Inl e \<Rightarrow> Some ErrorTone) (toasts w)"
  using assms
  by (cases "api_result (rec_path c) oc"; cases c)
    (auto simp: view_settle_def records_settle_def create_settled_def update_settled_def remove_settled_def
      save_settled_def removal_settled_def notify_def)

text \<open>
  C34.  Every mutation ends with a notification and an enabled form: when the call settles, the busy
  flag is cleared and exactly one notification is shown; when it fails, in the error tone, the
  list, the dialogs and what was typed into them are as before.
\<close>

theorem records_feedback:
  assumes "view_settle i oc w = Some w'" and "map_of (calls w) i = Some c" and "\<not> is_load c"
  shows "\<not> rec_busy w' \<and>
    (case api_result (rec_path c) oc of
       Inr v \<Rightarrow> (\<exists>m. toasts w' = show_toast m None (toasts w))
     | Inl e \<Rightarrow> (\<exists>m. toasts w' = show_toast m (Some ErrorTone) (toasts w)) \<and> record_items w' = record_items w \<and>
         editorOpen w' = editorOpen w \<and> deleting w' = deleting w \<and> form w' = form w)"
  using assms
  by (cases "api_result (rec_path c) oc"; cases c)
    (auto simp: view_settle_def records_settle_def create_settled_def update_settled_def remove_settled_def
      save_settled_def removal_settled_def notify_def)

theorem records_feedback_witness:
  "\<exists>w'. view_settle 1 (FetchRejected OtherCause) saving = Some w' \<and> editorOpen w' \<and> form_title (form w') = lit ''a'' \<and>
     (\<exists>m. toasts w' = show_toast m (Some ErrorTone) toast_init)"
proof -
  have o: "api_result p (FetchRejected OtherCause) = Inl OtherCause" for p
    by (simp add: api_result_def)
  obtain w' where w: "view_settle 1 (FetchRejected OtherCause) saving = Some w'"
    by (simp add: view_settle_def records_settle_def saving_calls create_settled_def o)
  have "editorOpen saving" "form_title (form saving) = lit ''a''" "toasts saving = toast_init"
    by (simp_all add: saving_def records_eval)
  then show ?thesis
    using records_feedback [OF w] w by (simp add: saving_calls o)
qed

subsection \<open>Races\<close>

text \<open>
  A load whose answer already has a record that is being created, answered before the create, lists
  the record twice: the continuation of the create does not look whether the list has it.
\<close>

lemma create_during_load_duplicates:
  assumes "can a (lit ''records.create'')"
  shows "\<exists>w. rtranclp (records_step lower a) records_mount w \<and> \<not> distinct (map rec_id (record_items w))"
proof -
  let ?r = "sample_record_json ''x'' ''a''"
  have l: "as_records (JObj [(lit ''records'', JArr [?r])]) = Some [sample_record ''x'' ''a'']"
    by (simp add: as_records_def)
  obtain w1 where w1: "view_settle 0 (Response 200 (Some (JObj [(lit ''records'', JArr [?r])]))) saving = Some w1"
      "record_items w1 = [sample_record ''x'' ''a'']"
      "calls w1 = [(1, CreateCall \<lparr>input_title = lit ''a'', input_status = Draft\<rparr>)]"
    by (simp add: view_settle_def records_settle_def saving_calls load_settled_def l)
  obtain w2 where w2: "view_settle 1 (Response 200 (Some ?r)) w1 = Some w2"
      "record_items w2 = [sample_record ''x'' ''a'', sample_record ''x'' ''a'']"
    using w1 by (simp add: view_settle_def records_settle_def create_settled_def save_settled_def notify_def)
  have "rtranclp (records_step lower a) records_mount w2"
    using saving_reachable [OF assms] records_step.settle [OF w1(1)] records_step.settle [OF w2(1)]
    by (meson rtranclp.rtrancl_into_rtrancl)
  then show ?thesis
    using w2(2) by (intro exI [of _ w2]) (simp add: sample_record_def)
qed

text \<open>
  A record dialog can be closed while its save is in flight and opened again for another record;
  the first save then closes the second dialog, and what was typed there is gone without having
  been sent.
\<close>

lemma stale_save_closes_editor:
  assumes "can a (lit ''records.create'')"
  shows "\<exists>w w'. rtranclp (records_step lower a) records_mount w \<and> editorOpen w \<and> form_title (form w) = lit ''b'' \<and>
    records_step lower a w w' \<and> \<not> editorOpen w' \<and> (\<forall>r \<in> set (record_items w'). rec_title r \<noteq> lit ''b'') \<and>
    filter (\<lambda>p. \<not> is_load (snd p)) (calls w') = []"
proof -
  let ?c = "saving\<lparr>editorOpen := False\<rparr>" and ?w = "draft_open ''b'' (saving\<lparr>editorOpen := False\<rparr>)"
  have "editorOpen saving"
    by (simp add: saving_def records_eval)
  then have "records_step lower a saving ?c"
    using records_step.user [OF records_user.close_editor] by simp
  then have "rtranclp (records_step lower a) records_mount ?c"
    using saving_reachable [OF assms] by (meson rtranclp.rtrancl_into_rtrancl)
  moreover have "page_active ?c" "\<not> forbidden ?c"
    by (simp_all add: page_active_def forbidden_def saving_def records_eval)
  ultimately have r: "rtranclp (records_step lower a) records_mount ?w"
    by (rule draft_open_reachable) (simp_all add: assms)
  have c: "calls ?w = calls saving" "record_items ?w = []"
    by (simp_all add: draft_open_def openCreate_def saving_def) (simp add: records_eval)
  obtain w' where w': "view_settle 1 (Response 200 (Some (sample_record_json ''x'' ''a''))) ?w = Some w'"
      "\<not> editorOpen w'" "record_items w' = [sample_record ''x'' ''a'']" "filter (\<lambda>p. \<not> is_load (snd p)) (calls w') = []"
    by (simp add: view_settle_def records_settle_def c saving_calls create_settled_def save_settled_def notify_def)
  have "editorOpen ?w" "form_title (form ?w) = lit ''b''"
    by (simp_all add: draft_open_def openCreate_def)
  then show ?thesis
    using r records_step.settle [OF w'(1)] w'(2-4) by (intro exI [of _ ?w] exI [of _ w']) (simp add: sample_record_def)
qed

end
