(* ===== verification/Record_Dialogs.thy ===== *)
theory Record_Dialogs
  imports Records_View Admin_Parts
begin

section \<open>The record dialogs: \<open>RecordDialog.tsx\<close>, \<open>DeleteDialog.tsx\<close>\<close>

text \<open>
  The document as the dialogs see it: the focused element, if any (\<open>None\<close> is the body, which takes
  no focus when asked to), the open modal dialogs, and for each mounted dialog the element its effect
  remembered.  Both dialogs run the same effect, with the title field or the cancel button as the
  element that gets the focus.  \<open>focus_element\<close> is the method \<open>focus\<close>: an element that is not in the
  document, is disabled or is inert, as everything behind a modal dialog is, does not take the focus.
\<close>

record 'e document =
  active_element :: "'e option"
  open_dialogs :: "nat list"
  returnFocus :: "(nat \<times> 'e option) list"

definition focus_element :: "('e \<Rightarrow> bool) \<Rightarrow> 'e \<Rightarrow> 'e document \<Rightarrow> 'e document" where
  "focus_element takes e doc = (if takes e then doc\<lparr>active_element := Some e\<rparr> else doc)"

definition dialog_mount :: "nat \<Rightarrow> 'e \<Rightarrow> 'e document \<Rightarrow> 'e document" where
  "dialog_mount d field doc =
     (let d1 = doc\<lparr>returnFocus := assoc_set d (active_element doc) (returnFocus doc)\<rparr>;
          d2 = (if d \<in> set (open_dialogs d1) then d1 else d1\<lparr>open_dialogs := open_dialogs d1 @ [d]\<rparr>)
      in d2\<lparr>active_element := Some field\<rparr>)"

text \<open>The clean-up focuses the remembered element.  When the component is unmounted the dialog element
  has left the document before the clean-up runs.\<close>

definition dialog_cleanup :: "nat \<Rightarrow> ('e \<Rightarrow> bool) \<Rightarrow> 'e document \<Rightarrow> 'e document" where
  "dialog_cleanup d takes doc =
     (case map_of (returnFocus doc) d of Some (Some e) \<Rightarrow> focus_element takes e doc | _ \<Rightarrow> doc)"

definition remove_dialog :: "nat \<Rightarrow> 'e document \<Rightarrow> 'e document" where
  "remove_dialog d doc = doc\<lparr>open_dialogs := filter (\<lambda>x. x \<noteq> d) (open_dialogs doc)\<rparr>"

definition dialog_unmount :: "nat \<Rightarrow> ('e \<Rightarrow> bool) \<Rightarrow> 'e document \<Rightarrow> 'e document" where
  "dialog_unmount d takes doc = dialog_cleanup d takes (remove_dialog d doc)"

text \<open>The two dialogs have their effects and key handlers each in its own copy.\<close>

definition delete_mount :: "nat \<Rightarrow> 'e \<Rightarrow> 'e document \<Rightarrow> 'e document" where
  "delete_mount d cancelButton doc =
     (let d1 = doc\<lparr>returnFocus := assoc_set d (active_element doc) (returnFocus doc)\<rparr>;
          d2 = (if d \<in> set (open_dialogs d1) then d1 else d1\<lparr>open_dialogs := open_dialogs d1 @ [d]\<rparr>)
      in d2\<lparr>active_element := Some cancelButton\<rparr>)"

definition delete_cleanup :: "nat \<Rightarrow> ('e \<Rightarrow> bool) \<Rightarrow> 'e document \<Rightarrow> 'e document" where
  "delete_cleanup d takes doc =
     (case map_of (returnFocus doc) d of Some (Some e) \<Rightarrow> focus_element takes e doc | _ \<Rightarrow> doc)"

definition delete_unmount :: "nat \<Rightarrow> ('e \<Rightarrow> bool) \<Rightarrow> 'e document \<Rightarrow> 'e document" where
  "delete_unmount d takes doc = delete_cleanup d takes (remove_dialog d doc)"

definition delete_key :: "jstr \<Rightarrow> bool" where
  "delete_key k \<longleftrightarrow> k = lit ''Escape''"

text \<open>The key handler: whether it prevents the default and closes the dialog.\<close>

definition dialog_key :: "jstr \<Rightarrow> bool" where
  "dialog_key k \<longleftrightarrow> k = lit ''Escape''"

record dialog_markup =
  dialog_title :: jstr
  dialog_copy :: jstr
  title_value :: jstr
  status_choices :: "(jstr \<times> jstr \<times> bool) list"
  submit_disabled :: bool
  submit_label :: jstr

definition statuses :: "record_status list" where
  "statuses = [Draft, Active, Archived]"

definition RecordDialog :: "record_dialog_props \<Rightarrow> record_form \<Rightarrow> dialog_markup" where
  "RecordDialog props f =
     \<lparr>dialog_title = (case props_record props of
          Some r \<Rightarrow> [0x7F16, 0x8F91, 0x8BB0, 0x5F55]
        | None \<Rightarrow> [0x65B0, 0x5EFA, 0x8BB0, 0x5F55]),
      dialog_copy = [],
      title_value = form_title f,
      status_choices = map (\<lambda>s. (record_status_value s, recordStatusLabels s, form_status f = s)) statuses,
      submit_disabled = (props_busy props \<or> js_trim (form_title f) = []),
      submit_label = (if props_busy props
        then [0x6B63, 0x5728, 0x4FDD, 0x5B58, 0x002E, 0x002E, 0x002E]
        else [0x4FDD, 0x5B58, 0x8BB0, 0x5F55])\<rparr>"

definition DeleteDialog :: "delete_dialog_props \<Rightarrow> dialog_markup" where
  "DeleteDialog props =
     \<lparr>dialog_title = [0x5220, 0x9664, 0x8FD9, 0x6761, 0x8BB0, 0x5F55, 0xFF1F],
      dialog_copy = [0x8BB0, 0x5F55] @ lit '' '' @ rec_title (delete_record props) @ lit '' '' @
        [0x5C06, 0x88AB, 0x6C38, 0x4E45, 0x5220, 0x9664, 0x3002],
      title_value = [], status_choices = [],
      submit_disabled = delete_busy props,
      submit_label = (if delete_busy props
        then [0x6B63, 0x5728, 0x5220, 0x9664, 0x002E, 0x002E, 0x002E]
        else [0x5220, 0x9664])\<rparr>"

text \<open>
  The whole workspace: summary, the button for a new record, the toolbar with its filter tabs and
  refresh button, the panel, the rows, the second button for a new record of an empty list, and the
  dialogs.
\<close>

record workspace_markup =
  record_count :: nat
  create_button :: bool
  toolbar :: bool
  filter_tabs :: "(jstr \<times> bool) list"
  refresh_disabled :: bool
  panel :: records_panel
  panel_rows :: "record_row list"
  empty_create_button :: bool
  record_dialog :: "dialog_markup option"
  delete_dialog :: "dialog_markup option"

definition RecordsWorkspace ::
    "(jstr \<Rightarrow> jstr option) \<Rightarrow> (jstr \<Rightarrow> jstr) \<Rightarrow> auth_state \<Rightarrow> records_view \<Rightarrow> workspace_markup" where
  "RecordsWorkspace engine lower a w =
     \<lparr>record_count = value_count (records_context_value w),
      create_button = (\<not> forbidden w \<and> can a (lit ''records.create'')),
      toolbar = (\<not> forbidden w),
      filter_tabs = map (\<lambda>f. (recordFilterLabels f, status_filter w = f)) status_filters,
      refresh_disabled = rec_loading w,
      panel = records_display lower w,
      panel_rows = (case records_display lower w of RecordTable rs \<Rightarrow> map (render_row engine a) rs | _ \<Rightarrow> []),
      empty_create_button = (records_display lower w = NoRecords \<and> can a (lit ''records.create'')),
      record_dialog = (if editorOpen w then Some (RecordDialog (editor_props w) (form w)) else None),
      delete_dialog = map_option (\<lambda>r. DeleteDialog (removal_props r w)) (deleting w)\<rparr>"

text \<open>The events of the step relation start from controls that are on the page and enabled.\<close>

lemma workspace_controls:
  "create_shown lower a w \<longleftrightarrow>
     create_button (RecordsWorkspace engine lower a w) \<or> empty_create_button (RecordsWorkspace engine lower a w)"
  "row_shown lower w r \<Longrightarrow> render_row engine a r \<in> set (panel_rows (RecordsWorkspace engine lower a w))"
  "editorOpen w \<Longrightarrow> \<not> rec_busy w \<Longrightarrow> js_trim (form_title (form w)) \<noteq> [] \<Longrightarrow>
     \<exists>d. record_dialog (RecordsWorkspace engine lower a w) = Some d \<and> \<not> submit_disabled d"
  by (auto simp: create_shown_def row_shown_def RecordsWorkspace_def RecordDialog_def split: records_panel.splits)

subsection \<open>Focus\<close>

lemma dialogs_same:
  "delete_mount = dialog_mount" "delete_cleanup = dialog_cleanup" "delete_unmount = dialog_unmount" "delete_key = dialog_key"
  by (simp_all add: fun_eq_iff delete_mount_def dialog_mount_def delete_cleanup_def dialog_cleanup_def delete_unmount_def
      dialog_unmount_def delete_key_def dialog_key_def Let_def)

end
