(* ===== verification/App_Shell.thy ===== *)
theory App_Shell
  imports Module_Resolution Toast_Store
begin

section \<open>The application shell: \<open>components/AppShell.tsx\<close>\<close>

text \<open>
  The shell keeps whether the navigation overlay is open, the viewport class and two focus
  requests.  Its effects act on the page, so the state also has the style \<open>overflow\<close> of the body,
  the value the scroll lock saved, the focused element and the animation frames it scheduled.
  \<open>commit\<close> is what React does after a handler: for every effect whose dependencies changed, first
  the clean-up functions, then the effects, in the order of the source.
\<close>

datatype focus_target =
    MenuButton
  | CloseButton
  | ModuleLink jstr
  | LogoutButton
  | CollapseButton
  | PageHeading
  | OtherElement

record shell =
  mobileOpen :: bool
  collapsed :: bool
  mobileViewport :: bool
  menuFocusRequest :: nat
  pageFocusRequest :: nat
  body_overflow :: jstr
  saved_overflow :: "jstr option"
  focused :: focus_target
  menu_frame :: bool
  page_frame :: bool
  listeners :: nat

definition locked :: "shell \<Rightarrow> bool" where
  "locked s \<longleftrightarrow> mobileViewport s \<and> mobileOpen s"

subsection \<open>Effects\<close>

definition lock_cleanup :: "shell \<Rightarrow> shell" where
  "lock_cleanup s =
     (case saved_overflow s of
        None \<Rightarrow> s
      | Some previous \<Rightarrow> s\<lparr>body_overflow := previous, saved_overflow := None\<rparr>)"

definition lock_effect :: "shell \<Rightarrow> shell" where
  "lock_effect s =
     (if \<not> mobileViewport s \<or> \<not> mobileOpen s then s
      else s\<lparr>saved_overflow := Some (body_overflow s), body_overflow := lit ''hidden''\<rparr>)"

definition close_focus_effect :: "shell \<Rightarrow> shell" where
  "close_focus_effect s = (if mobileOpen s then s\<lparr>focused := CloseButton\<rparr> else s)"

definition page_effect :: "shell \<Rightarrow> shell" where
  "page_effect s = (if pageFocusRequest s = 0 then s else s\<lparr>page_frame := True\<rparr>)"

definition menu_effect :: "shell \<Rightarrow> shell" where
  "menu_effect s = (if menuFocusRequest s = 0 then s else s\<lparr>menu_frame := True\<rparr>)"

definition commit :: "shell \<Rightarrow> shell \<Rightarrow> shell" where
  "commit old s =
     (let open_changed = (mobileOpen s \<noteq> mobileOpen old);
          lock_changed = (open_changed \<or> mobileViewport s \<noteq> mobileViewport old);
          page_changed = (pageFocusRequest s \<noteq> pageFocusRequest old);
          menu_changed = (menuFocusRequest s \<noteq> menuFocusRequest old);
          s1 = (if lock_changed then lock_cleanup s else s);
          s2 = (if page_changed then s1\<lparr>page_frame := False\<rparr> else s1);
          s3 = (if menu_changed then s2\<lparr>menu_frame := False\<rparr> else s2);
          s4 = (if open_changed then close_focus_effect s3 else s3);
          s5 = (if lock_changed then lock_effect s4 else s4);
          s6 = (if page_changed then page_effect s5 else s5)
      in if menu_changed then menu_effect s6 else s6)"

subsection \<open>Handlers\<close>

definition sync_state :: "bool \<Rightarrow> shell \<Rightarrow> shell" where
  "sync_state matches s =
     (let s1 = s\<lparr>mobileViewport := matches\<rparr> in if \<not> matches then s1\<lparr>mobileOpen := False\<rparr> else s1)"

definition sync :: "bool \<Rightarrow> shell \<Rightarrow> shell" where
  "sync matches s = commit s (sync_state matches s)"

definition open_menu :: "shell \<Rightarrow> shell" where
  "open_menu s = commit s (s\<lparr>mobileOpen := True\<rparr>)"

definition closeMobileNavigation :: "bool \<Rightarrow> shell \<Rightarrow> shell" where
  "closeMobileNavigation restoreFocus s =
     commit s
       (let s1 = s\<lparr>mobileOpen := False\<rparr>
        in if restoreFocus then s1\<lparr>menuFocusRequest := menuFocusRequest s1 + 1\<rparr> else s1)"

definition closeAfterSelection :: "shell \<Rightarrow> shell" where
  "closeAfterSelection s =
     (if \<not> mobileViewport s then s
      else commit s (s\<lparr>mobileOpen := False, pageFocusRequest := pageFocusRequest s + 1\<rparr>))"

definition toggle_collapsed :: "shell \<Rightarrow> shell" where
  "toggle_collapsed s = s\<lparr>collapsed := \<not> collapsed s\<rparr>"

text \<open>The elements the selector of the key handler finds, in document order: the close button, the
  links of the modules, the logout button unless it is disabled, and the collapse button unless its
  \<open>tabIndex\<close> takes it out.\<close>

definition focusable :: "resolved_module list \<Rightarrow> auth_state \<Rightarrow> shell \<Rightarrow> focus_target list" where
  "focusable ms a s =
     [CloseButton] @ map (\<lambda>m. ModuleLink (mod_id m)) ms @ (if busy a then [] else [LogoutButton]) @
     (if mobileViewport s then [] else [CollapseButton])"

datatype key = Escape | Tab bool | OtherKey

text \<open>The handler; the flag says whether it prevented the default action of the key.\<close>

definition handleSidebarKeyDown :: "resolved_module list \<Rightarrow> auth_state \<Rightarrow> key \<Rightarrow> shell \<Rightarrow> shell \<times> bool" where
  "handleSidebarKeyDown ms a k s =
     (case k of
        Escape \<Rightarrow> (closeMobileNavigation True s, True)
      | OtherKey \<Rightarrow> (s, False)
      | Tab shift \<Rightarrow>
          if \<not> mobileViewport s \<or> \<not> mobileOpen s then (s, False)
          else
            (let fs = focusable ms a s in
             if fs = [] then (s, False)
             else if shift \<and> focused s = hd fs then (s\<lparr>focused := last fs\<rparr>, True)
             else if \<not> shift \<and> focused s = last fs then (s\<lparr>focused := hd fs\<rparr>, True)
             else (s, False)))"

text \<open>The animation frames; an element of an inert part of the page does not take the focus.\<close>

definition run_menu_frame :: "shell \<Rightarrow> shell" where
  "run_menu_frame s =
     (if menu_frame s
      then (let s1 = s\<lparr>menu_frame := False\<rparr> in if locked s1 then s1 else s1\<lparr>focused := MenuButton\<rparr>)
      else s)"

definition run_page_frame :: "bool \<Rightarrow> shell \<Rightarrow> shell" where
  "run_page_frame has_heading s =
     (if page_frame s
      then (let s1 = s\<lparr>page_frame := False\<rparr>
            in if locked s1 \<or> \<not> has_heading then s1 else s1\<lparr>focused := PageHeading\<rparr>)
      else s)"

text \<open>The first effect reads the viewport and listens to its changes; its clean-up removes the
  listener.  The state counts the listeners registered.\<close>

definition viewport_effect :: "bool \<Rightarrow> shell \<Rightarrow> shell" where
  "viewport_effect matches s = (sync matches s)\<lparr>listeners := listeners s + 1\<rparr>"

definition viewport_cleanup :: "shell \<Rightarrow> shell" where
  "viewport_cleanup s = s\<lparr>listeners := listeners s - 1\<rparr>"

text \<open>Mounting runs every effect once, on the first render and then after the viewport is known;
  unmounting runs every clean-up.\<close>

definition shell_first :: "jstr \<Rightarrow> shell" where
  "shell_first overflow =
     \<lparr>mobileOpen = False, collapsed = False, mobileViewport = False, menuFocusRequest = 0, pageFocusRequest = 0,
      body_overflow = overflow, saved_overflow = None, focused = OtherElement, menu_frame = False, page_frame = False,
      listeners = 0\<rparr>"

definition shell_mount :: "bool \<Rightarrow> jstr \<Rightarrow> shell" where
  "shell_mount matches overflow = viewport_effect matches (shell_first overflow)"

definition shell_unmount :: "shell \<Rightarrow> shell" where
  "shell_unmount s = (lock_cleanup (viewport_cleanup s))\<lparr>menu_frame := False, page_frame := False\<rparr>"

subsection \<open>What is rendered\<close>

record shell_markup =
  header_inert :: bool
  sidebar_inert :: bool
  sidebar_hidden :: bool
  sidebar_modal :: bool
  main_inert :: bool
  scrim_shown :: bool
  menu_expanded :: bool
  nav_links :: "(jstr \<times> jstr \<times> jstr) list"
  logout_disabled :: bool
  initial :: jstr
  account :: "(jstr \<times> jstr) option"
  layout_collapsed :: bool
  collapse_label :: jstr
  collapse_hidden :: bool

definition actorInitial :: "auth_state \<Rightarrow> jstr" where
  "actorInitial a =
     (case auth_actor a of
        None \<Rightarrow> lit ''A''
      | Some p \<Rightarrow> if take 1 (display_name p) = [] then lit ''A'' else take 1 (display_name p))"

definition AppShell :: "resolved_module list \<Rightarrow> auth_state \<Rightarrow> shell \<Rightarrow> shell_markup" where
  "AppShell ms a s =
     \<lparr>header_inert = (mobileViewport s \<and> mobileOpen s),
      sidebar_inert = (mobileViewport s \<and> \<not> mobileOpen s),
      sidebar_hidden = (mobileViewport s \<and> \<not> mobileOpen s),
      sidebar_modal = (mobileViewport s \<and> mobileOpen s),
      main_inert = (mobileViewport s \<and> mobileOpen s),
      scrim_shown = mobileOpen s,
      menu_expanded = mobileOpen s,
      nav_links = map (\<lambda>m. (mod_id m, res_path m, res_label m)) ms,
      logout_disabled = busy a,
      initial = actorInitial a,
      account = map_option (\<lambda>p. (display_name p, actor_type p)) (auth_actor a),
      layout_collapsed = collapsed s,
      collapse_label = (if collapsed s then [0x5C55, 0x5F00, 0x5BFC, 0x822A]
        else [0x6536, 0x8D77, 0x5BFC, 0x822A]),
      collapse_hidden = mobileViewport s\<rparr>"

subsection \<open>Signing out\<close>

definition logout_failed_text :: jstr where
  "logout_failed_text =
     [0x9000, 0x51FA, 0x767B, 0x5F55, 0x5931, 0x8D25, 0xFF0C, 0x8BF7, 0x91CD, 0x8BD5,
      0x3002]"

definition shell_logout :: "world \<Rightarrow> world" where
  "shell_logout w = (if busy (auth w) then w else logout w)"

definition shell_logout_settled :: "signal \<Rightarrow> toast_state \<Rightarrow> toast_state \<times> jstr option" where
  "shell_logout_settled sig ts =
     (case sig of
        LogoutResolved \<Rightarrow> (ts, Some (lit ''/login''))
      | LogoutRejected c \<Rightarrow> (show_toast (cause_message logout_failed_text c) (Some ErrorTone) ts, None)
      | _ \<Rightarrow> (ts, None))"

inductive shell_step :: "shell \<Rightarrow> shell \<Rightarrow> bool" where
  viewport: "shell_step s (sync matches s)"
| menu: "\<not> locked s \<Longrightarrow> shell_step s (open_menu s)"
| close: "shell_step s (closeMobileNavigation True s)"
| select: "\<not> (mobileViewport s \<and> \<not> mobileOpen s) \<Longrightarrow> shell_step s (closeAfterSelection s)"
| collapse: "shell_step s (toggle_collapsed s)"
| key: "shell_step s (fst (handleSidebarKeyDown ms a k s))"
| menu_frame: "shell_step s (run_menu_frame s)"
| page_frame: "shell_step s (run_page_frame h s)"
| move_focus: "shell_step s (s\<lparr>focused := f\<rparr>)"

subsection \<open>The scroll lock\<close>

definition lock_inv :: "jstr \<Rightarrow> shell \<Rightarrow> bool" where
  "lock_inv original s \<longleftrightarrow>
     body_overflow s = (if locked s then lit ''hidden'' else original) \<and>
     saved_overflow s = (if locked s then Some original else None)"

lemma lock_inv_cong:
  assumes "lock_inv v s" "body_overflow t = body_overflow s" "saved_overflow t = saved_overflow s"
    and "mobileOpen t = mobileOpen s" "mobileViewport t = mobileViewport s"
  shows "lock_inv v t"
  using assms by (simp add: lock_inv_def locked_def)

lemma effects_frame [simp]:
  "mobileOpen (lock_cleanup s) = mobileOpen s" "mobileOpen (lock_effect s) = mobileOpen s"
  "mobileOpen (close_focus_effect s) = mobileOpen s" "mobileOpen (page_effect s) = mobileOpen s"
  "mobileOpen (menu_effect s) = mobileOpen s"
  "mobileViewport (lock_cleanup s) = mobileViewport s" "mobileViewport (lock_effect s) = mobileViewport s"
  "mobileViewport (close_focus_effect s) = mobileViewport s" "mobileViewport (page_effect s) = mobileViewport s"
  "mobileViewport (menu_effect s) = mobileViewport s"
  by (simp_all add: lock_cleanup_def lock_effect_def close_focus_effect_def page_effect_def menu_effect_def
      split: option.split)

lemma commit_frame [simp]:
  "mobileOpen (commit old s) = mobileOpen s" "mobileViewport (commit old s) = mobileViewport s"
  by (simp_all add: commit_def Let_def if_distrib [of mobileOpen] if_distrib [of mobileViewport])

lemma effects_overflow [simp]:
  "body_overflow (close_focus_effect s) = body_overflow s" "body_overflow (page_effect s) = body_overflow s"
  "body_overflow (menu_effect s) = body_overflow s"
  "saved_overflow (close_focus_effect s) = saved_overflow s" "saved_overflow (page_effect s) = saved_overflow s"
  "saved_overflow (menu_effect s) = saved_overflow s"
  "body_overflow (lock_effect s) = (if locked s then lit ''hidden'' else body_overflow s)"
  "saved_overflow (lock_effect s) = (if locked s then Some (body_overflow s) else saved_overflow s)"
  by (simp_all add: lock_effect_def close_focus_effect_def page_effect_def menu_effect_def locked_def)

lemma commit_overflow:
  assumes "mobileOpen s \<noteq> mobileOpen old \<or> mobileViewport s \<noteq> mobileViewport old"
  shows "body_overflow (commit old s) = (if locked s then lit ''hidden'' else body_overflow (lock_cleanup s))"
    "saved_overflow (commit old s) = (if locked s then Some (body_overflow (lock_cleanup s)) else saved_overflow (lock_cleanup s))"
proof -
  have c: "(mobileOpen s \<noteq> mobileOpen old \<or> mobileViewport s \<noteq> mobileViewport old) = True"
    using assms by blast
  show "body_overflow (commit old s) = (if locked s then lit ''hidden'' else body_overflow (lock_cleanup s))"
    "saved_overflow (commit old s) = (if locked s then Some (body_overflow (lock_cleanup s)) else saved_overflow (lock_cleanup s))"
    unfolding commit_def Let_def c if_True
    by (simp_all add: locked_def if_distrib [of mobileOpen] if_distrib [of mobileViewport]
        if_distrib [of body_overflow] if_distrib [of saved_overflow])
qed

lemma commit_overflow_same:
  assumes "mobileOpen s = mobileOpen old" "mobileViewport s = mobileViewport old"
  shows "body_overflow (commit old s) = body_overflow s" "saved_overflow (commit old s) = saved_overflow s"
  using assms by (simp_all add: commit_def Let_def if_distrib [of body_overflow] if_distrib [of saved_overflow])

lemma lock_inv_commit:
  assumes "lock_inv v old" "body_overflow s = body_overflow old" "saved_overflow s = saved_overflow old"
  shows "lock_inv v (commit old s)"
proof (cases "mobileOpen s \<noteq> mobileOpen old \<or> mobileViewport s \<noteq> mobileViewport old")
  case True
  have "body_overflow (lock_cleanup s) = v" "saved_overflow (lock_cleanup s) = None"
    using assms by (auto simp: lock_inv_def lock_cleanup_def split: if_splits)
  then show ?thesis
    by (simp add: lock_inv_def commit_overflow [OF True]) (simp add: locked_def)
next
  case False
  then show ?thesis
    using assms by (simp add: lock_inv_def commit_overflow_same) (simp add: locked_def)
qed

lemma lock_inv_key: "lock_inv v s \<Longrightarrow> lock_inv v (fst (handleSidebarKeyDown ms a k s))"
proof (cases k)
  case Escape
  assume "lock_inv v s"
  then have "lock_inv v (closeMobileNavigation True s)"
    unfolding closeMobileNavigation_def by (intro lock_inv_commit) simp_all
  then show ?thesis
    by (simp add: handleSidebarKeyDown_def Escape)
qed (auto simp: handleSidebarKeyDown_def Let_def lock_inv_def locked_def)

lemma lock_inv_step: "shell_step s s' \<Longrightarrow> lock_inv v s \<Longrightarrow> lock_inv v s'"
proof (induction rule: shell_step.induct)
  case (key s ms a k)
  then show ?case by (simp add: lock_inv_key)
next
  case (menu_frame s)
  then show ?case by (auto simp: run_menu_frame_def Let_def elim!: lock_inv_cong)
next
  case (page_frame s h)
  then show ?case by (auto simp: run_page_frame_def Let_def elim!: lock_inv_cong)
next
  case (move_focus s f)
  then show ?case by (auto elim!: lock_inv_cong)
next
  case (collapse s)
  then show ?case by (auto simp: toggle_collapsed_def elim!: lock_inv_cong)
qed (auto simp: sync_def sync_state_def open_menu_def closeMobileNavigation_def closeAfterSelection_def Let_def
    intro!: lock_inv_commit)

lemma lock_inv_mount: "lock_inv v (shell_mount matches v)"
proof -
  have "lock_inv v (sync matches (shell_first v))"
    unfolding sync_def by (rule lock_inv_commit) (simp_all add: lock_inv_def locked_def sync_state_def shell_first_def Let_def)
  then show ?thesis
    unfolding shell_mount_def by (rule lock_inv_cong) (simp_all add: viewport_effect_def)
qed

interpretation sh: invariant_system "shell_mount matches original" shell_step "lock_inv original" for matches original
  by unfold_locales (rule lock_inv_mount, erule (1) lock_inv_step)

text \<open>
  The scroll lock is exactly as long as the overlay: in every state of the shell the body has
  the style \<open>hidden\<close> while the navigation overlay is open on a small viewport and the style it had
  before the shell mounted otherwise, whatever the order of viewport changes, clicks and keys, and
  unmounting restores that style.  The sidebar and the page are never inert at the same time.
\<close>

lemma shell_scroll_lock:
  assumes "rtranclp shell_step (shell_mount matches original) s"
  shows "body_overflow s = (if mobileViewport s \<and> mobileOpen s then lit ''hidden'' else original) \<and>
    body_overflow (shell_unmount s) = original \<and>
    \<not> (sidebar_inert (AppShell ms a s) \<and> main_inert (AppShell ms a s))"
  using sh.reach_inv [OF assms]
  by (auto simp: lock_inv_def locked_def shell_unmount_def viewport_cleanup_def lock_cleanup_def AppShell_def split: if_splits)

subsection \<open>Focus\<close>

lemma commit_menu_frame: "menuFocusRequest s \<noteq> menuFocusRequest old \<Longrightarrow> menuFocusRequest s \<noteq> 0 \<Longrightarrow> menu_frame (commit old s)"
proof -
  have "menuFocusRequest (lock_cleanup t) = menuFocusRequest t" "menuFocusRequest (lock_effect t) = menuFocusRequest t"
    "menuFocusRequest (close_focus_effect t) = menuFocusRequest t" "menuFocusRequest (page_effect t) = menuFocusRequest t"
    "menu_frame (menu_effect t) = (menuFocusRequest t \<noteq> 0 \<or> menu_frame t)" for t
    by (simp_all add: lock_cleanup_def lock_effect_def close_focus_effect_def page_effect_def menu_effect_def
        split: option.split)
  then show "menuFocusRequest s \<noteq> menuFocusRequest old \<Longrightarrow> menuFocusRequest s \<noteq> 0 \<Longrightarrow> menu_frame (commit old s)"
    by (simp add: commit_def Let_def if_distrib [of menuFocusRequest])
qed

lemma escape_closes:
  assumes "mobileViewport s" "mobileOpen s"
  shows "\<not> mobileOpen (closeMobileNavigation True s)" "mobileViewport (closeMobileNavigation True s)"
    "menu_frame (closeMobileNavigation True s)"
  using assms by (simp_all add: closeMobileNavigation_def Let_def commit_menu_frame)

text \<open>
  Leaving the overlay gives the focus back: when the overlay is open on a small viewport,
  Escape closes it and prevents the default action, and with the next animation frame the menu
  button, which opened it, has the focus and the page scrolls again.
\<close>

lemma escape_restores_focus:
  assumes "rtranclp shell_step (shell_mount matches original) s" and "mobileViewport s" and "mobileOpen s"
    and "handleSidebarKeyDown ms a Escape s = (s', prevented)"
  shows "prevented \<and> \<not> mobileOpen (run_menu_frame s') \<and> focused (run_menu_frame s') = MenuButton \<and>
    body_overflow (run_menu_frame s') = original \<and> sidebar_inert (AppShell ms a (run_menu_frame s'))"
proof -
  have s': "s' = closeMobileNavigation True s" "prevented"
    using assms(4) by (simp_all add: handleSidebarKeyDown_def)
  have "lock_inv original s'"
    unfolding s' using lock_inv_step [OF shell_step.close] sh.reach_inv [OF assms(1)] by blast
  then show ?thesis
    using escape_closes [OF assms(2,3)] s'
    by (simp add: run_menu_frame_def Let_def locked_def AppShell_def lock_inv_def)
qed

text \<open>Tab without a prevented default moves the focus to the neighbour in document order, as long as
  there is one among the elements that can take it; the rest of the page is inert.\<close>

fun neighbour :: "'a list \<Rightarrow> 'a \<Rightarrow> 'a" where
  "neighbour (x # y # xs) f = (if f = x then y else neighbour (y # xs) f)"
| "neighbour _ f = f"

definition press_tab :: "resolved_module list \<Rightarrow> auth_state \<Rightarrow> bool \<Rightarrow> shell \<Rightarrow> shell" where
  "press_tab ms a shift s =
     (let (s', prevented) = handleSidebarKeyDown ms a (Tab shift) s;
          fs = focusable ms a s
      in if prevented then s'
         else s'\<lparr>focused := neighbour (if shift then rev fs else fs) (focused s')\<rparr>)"

lemma neighbour_nth: "distinct xs \<Longrightarrow> Suc i < length xs \<Longrightarrow> neighbour xs (xs ! i) = xs ! Suc i"
proof (induction xs arbitrary: i rule: induct_list012)
  case (3 x y zs)
  show ?case
  proof (cases i)
    case (Suc j)
    then have "(y # zs) ! j \<in> set (y # zs)"
      using "3.prems"(2) by (intro nth_mem) simp
    then have "(y # zs) ! j \<noteq> x"
      using "3.prems"(1) by auto
    then show ?thesis
      using "3.IH"(2) [of j] "3.prems" Suc by simp
  qed simp
qed auto

lemma neighbour_rev_nth: "distinct xs \<Longrightarrow> i < length xs \<Longrightarrow> 0 < i \<Longrightarrow> neighbour (rev xs) (xs ! i) = xs ! (i - 1)"
proof -
  assume a: "distinct xs" "i < length xs" "0 < i"
  let ?j = "length xs - Suc i"
  have "neighbour (rev xs) (rev xs ! ?j) = rev xs ! Suc ?j"
    using a by (intro neighbour_nth) simp_all
  moreover have "length xs - Suc ?j = i" "length xs - Suc (Suc ?j) = i - 1" "Suc ?j < length xs"
    using a by simp_all
  ultimately show ?thesis
    by (simp add: rev_nth)
qed

lemma focusable_distinct:
  assumes "mobileViewport s"
  shows "distinct (focusable (useAdminModules selected a) a s)"
proof -
  have "distinct (map mod_id (useAdminModules selected a))"
    using resolve_order by (simp add: useAdminModules_def)
  then have "distinct (map ModuleLink (map mod_id (useAdminModules selected a)))"
    by (simp add: distinct_map inj_on_def del: map_map)
  then show ?thesis
    using assms by (auto simp: focusable_def comp_def)
qed

lemma tab_back:
  assumes "mobileViewport s" "mobileOpen s" "fs = focusable ms a s" "distinct fs" "i < length fs" "focused s = fs ! i"
  shows "focused (press_tab ms a True s) = (if i = 0 then last fs else fs ! (i - 1))"
proof -
  have ne: "fs \<noteq> []"
    using assms(5) by auto
  then have "fs ! i = hd fs \<longleftrightarrow> i = 0"
    using assms(4,5) by (auto simp: hd_conv_nth nth_eq_iff_index_eq)
  with ne show ?thesis
    using neighbour_rev_nth [OF assms(4,5)]
    by (auto simp: press_tab_def handleSidebarKeyDown_def Let_def assms(1,2,6) assms(3) [symmetric])
qed

lemma tab_forward:
  assumes "mobileViewport s" "mobileOpen s" "fs = focusable ms a s" "distinct fs" "i < length fs" "focused s = fs ! i"
  shows "focused (press_tab ms a False s) = (if Suc i = length fs then hd fs else fs ! Suc i)"
proof -
  have ne: "fs \<noteq> []"
    using assms(5) by auto
  then have "fs ! i = last fs \<longleftrightarrow> Suc i = length fs"
    using assms(4,5) by (auto simp: last_conv_nth nth_eq_iff_index_eq)
  with ne show ?thesis
    using neighbour_nth [OF assms(4), of i] assms(5)
    by (auto simp: press_tab_def handleSidebarKeyDown_def Let_def assms(1,2,6) assms(3) [symmetric])
qed

lemma mod_back: "0 < i \<Longrightarrow> i < n \<Longrightarrow> (i + n - 1) mod n = i - (1 :: nat)"
  by (cases i) simp_all

text \<open>
  C30.  The overlay traps the focus: while it is open on a small viewport and the focus is on one
  of its elements, Tab moves it to the next element and Shift+Tab to the previous one, around the
  ends, so the focus never leaves the overlay and every element of it is reached.
\<close>

theorem overlay_traps_focus:
  assumes "mobileViewport s" and "mobileOpen s" and "fs = focusable (useAdminModules selected a) a s"
    and "i < length fs" and "focused s = fs ! i"
  shows "focused (press_tab (useAdminModules selected a) a shift s) =
    fs ! ((if shift then i + length fs - 1 else i + 1) mod length fs)"
proof -
  have d: "distinct fs" and ne: "fs \<noteq> []"
    using focusable_distinct assms(1,3,4) by auto
  show ?thesis
  proof (cases shift)
    case True
    then show ?thesis
      using tab_back [OF assms(1-3) d assms(4,5)] mod_back [of i "length fs"] assms(4) ne
      by (cases "i = 0") (simp_all add: last_conv_nth)
  next
    case False
    then show ?thesis
      using tab_forward [OF assms(1-3) d assms(4,5)] assms(4) ne
      by (cases "Suc i = length fs") (simp_all add: hd_conv_nth)
  qed
qed

theorem overlay_traps_focus_witness:
  "focused (press_tab (useAdminModules [] auth_init) auth_init True (open_menu (shell_mount True []))) = LogoutButton"
proof -
  let ?s = "open_menu (shell_mount True [])"
  have m: "mobileViewport ?s" "mobileOpen ?s"
    by (simp_all add: open_menu_def shell_mount_def viewport_effect_def shell_first_def sync_def sync_state_def Let_def)
  have e: "useAdminModules [] auth_init = []"
    by (simp add: useAdminModules_def resolveAdminModules_def resolve_one_def auth_init_def)
  have f: "focusable (useAdminModules [] auth_init) auth_init ?s = [CloseButton, LogoutButton]"
    by (simp add: focusable_def e m(1)) (simp add: auth_init_def)
  have "focused ?s = CloseButton"
    by (simp add: open_menu_def shell_mount_def viewport_effect_def shell_first_def sync_def sync_state_def Let_def commit_def close_focus_effect_def
        lock_cleanup_def lock_effect_def)
  then show ?thesis
    using overlay_traps_focus [OF m refl, of 0 "[]" auth_init True] by (simp add: f)
qed

end
