(* ===== verification/Admin_System.thy ===== *)
theory Admin_System
  imports Routes_Login Audit_View Record_Dialogs App_Shell
begin

section \<open>The running application\<close>

text \<open>
  The components put together: one session store, one list of notifications, the location, and the
  module views, which are mounted and unmounted as the routes decide.  A request of a view is sent
  through the API client and is in flight in the session's world as \<open>CallOther\<close>; \<open>links\<close> says
  which request of which view it is.  A view that has been left stays in \<open>instances\<close>, since the
  continuations of its requests still run: they can no longer change what is on the screen, but a
  save that settles late still shows its notification.
\<close>

subsection \<open>Module views\<close>

datatype module_state =
    RecordsState records_view
  | TasksState tasks_view
  | AuditState audit_view

fun kind :: "module_state \<Rightarrow> module_view" where
  "kind (RecordsState v) = module_view.RecordsView"
| "kind (TasksState v) = module_view.TasksView"
| "kind (AuditState v) = module_view.AuditView"

fun mount_state :: "module_view \<Rightarrow> module_state" where
  "mount_state module_view.RecordsView = RecordsState records_mount"
| "mount_state module_view.TasksView = TasksState tasks_mount"
| "mount_state module_view.AuditView = AuditState audit_mount"

text \<open>Unmounting runs the clean-ups of a table view; the records view has none.\<close>

fun leave :: "module_state \<Rightarrow> module_state" where
  "leave (RecordsState v) = RecordsState v"
| "leave (TasksState v) = TasksState (page_unmount v)"
| "leave (AuditState v) = AuditState (page_unmount v)"

text \<open>The requests of a view that have not settled, as \<open>api\<close> was called for them: the table views
  pass the signal of their lease.\<close>

definition signalled :: "nat \<times> jstr \<Rightarrow> nat \<times> jstr \<times> request_init" where
  "signalled p = (fst p, snd p, no_options\<lparr>init_signal := Some (fst p)\<rparr>)"

fun requests_of :: "module_state \<Rightarrow> (nat \<times> jstr \<times> request_init) list" where
  "requests_of (RecordsState v) = map (\<lambda>(k, c). (k, rec_path c, rec_options c)) (calls v)"
| "requests_of (TasksState v) = map signalled (in_flight v)"
| "requests_of (AuditState v) = map signalled (in_flight v)"

fun settle_state :: "nat \<Rightarrow> fetch_outcome \<Rightarrow> module_state \<Rightarrow> module_state option" where
  "settle_state k oc (RecordsState v) = map_option RecordsState (view_settle k oc v)"
| "settle_state k oc (TasksState v) = map_option TasksState (tasks_settle k oc v)"
| "settle_state k oc (AuditState v) = map_option AuditState (audit_settle k oc v)"

text \<open>The notifications are shared: a view sees those of the application.\<close>

fun with_toasts :: "toast_state \<Rightarrow> module_state \<Rightarrow> module_state" where
  "with_toasts t (RecordsState v) = RecordsState (v\<lparr>toasts := t\<rparr>)"
| "with_toasts t m = m"

fun toasts_after :: "toast_state \<Rightarrow> module_state \<Rightarrow> toast_state" where
  "toasts_after t (RecordsState v) = toasts v"
| "toasts_after t m = t"

text \<open>An event of the mounted view.\<close>

inductive module_event :: "(jstr \<Rightarrow> jstr) \<Rightarrow> auth_state \<Rightarrow> module_state \<Rightarrow> module_state \<Rightarrow> bool" for lower a where
  records: "records_user lower a v v' \<Longrightarrow> module_event lower a (RecordsState v) (RecordsState v')"
| tasks: "tasks_user v v' \<Longrightarrow> module_event lower a (TasksState v) (TasksState v')"
| audit: "audit_user v v' \<Longrightarrow> module_event lower a (AuditState v) (AuditState v')"

subsection \<open>The application\<close>

record admin =
  session_world :: world
  place :: location
  instances :: "module_state list"
  mounted :: "nat option"
  links :: "(nat \<times> nat \<times> nat) list"
  notices :: toast_state
  login_origin :: location

definition transmit_one :: "nat \<Rightarrow> nat \<times> jstr \<times> request_init \<Rightarrow> admin \<Rightarrow> admin" where
  "transmit_one n r s =
     s\<lparr>session_world := send (CallOther (fst (snd r))) (snd (snd r)) (session_world s),
       links := links s @ [(next_call (session_world s), n, fst r)]\<rparr>"

definition transmit :: "nat \<Rightarrow> (nat \<times> jstr \<times> request_init) list \<Rightarrow> admin \<Rightarrow> admin" where
  "transmit n rs s = fold (transmit_one n) rs s"

definition issued :: "module_state \<Rightarrow> module_state \<Rightarrow> (nat \<times> jstr \<times> request_init) list" where
  "issued m m' = filter (\<lambda>r. fst r \<notin> fst ` set (requests_of m)) (requests_of m')"

definition update_instance :: "nat \<Rightarrow> module_state \<Rightarrow> admin \<Rightarrow> admin" where
  "update_instance n m' s =
     transmit n (issued (instances s ! n) m') (s\<lparr>instances := (instances s)[n := m']\<rparr>)"

definition mount :: "module_view \<Rightarrow> admin \<Rightarrow> admin" where
  "mount mv s =
     (let n = length (instances s); m = mount_state mv
      in transmit n (requests_of m) (s\<lparr>instances := instances s @ [m], mounted := Some n\<rparr>))"

definition unmount :: "admin \<Rightarrow> admin" where
  "unmount s =
     (case mounted s of
        None \<Rightarrow> s
      | Some n \<Rightarrow> s\<lparr>instances := (instances s)[n := leave (instances s ! n)], mounted := None\<rparr>)"

definition view_kind :: "admin \<Rightarrow> module_view option" where
  "view_kind s = map_option (\<lambda>n. kind (instances s ! n)) (mounted s)"

text \<open>
  What the routes do after the session or the location changed.  A view stays mounted when the
  location still shows it; otherwise it is unmounted, redirects are followed, and the view that
  they lead to is mounted.  When rendering raises an error or redirects do not end, nothing is
  mounted.
\<close>

definition show_route :: "matcher \<Rightarrow> admin_module list \<Rightarrow> admin \<Rightarrow> admin" where
  "show_route match selected s =
     (let view = render match selected (auth (session_world s))
      in if view_kind s \<noteq> None \<and> view (place s) = map_option ShellScreen (view_kind s) then s
         else (case follow 2 view (place s) of
                 None \<Rightarrow> unmount s
               | Some (loc, scr) \<Rightarrow>
                   (let t = (unmount s)\<lparr>place := loc\<rparr>
                    in case scr of ShellScreen mv \<Rightarrow> mount mv t | _ \<Rightarrow> t)))"

definition admin_start :: "matcher \<Rightarrow> admin_module list \<Rightarrow> location \<Rightarrow> admin" where
  "admin_start match selected loc =
     show_route match selected
       \<lparr>session_world = initialize world_init, place = loc, instances = [], mounted = None, links = [],
        notices = toast_init, login_origin = loc\<rparr>"

text \<open>How the outcome of a request reaches the view it belongs to, and how the promises of \<open>login\<close>
  and \<open>logout\<close> reach the form and the shell that wait for them.\<close>

definition settle_link :: "nat \<Rightarrow> fetch_outcome \<Rightarrow> admin \<Rightarrow> admin option" where
  "settle_link i oc s =
     (case map_of (links s) i of
        None \<Rightarrow> Some s
      | Some (n, k) \<Rightarrow>
          map_option (\<lambda>m. s\<lparr>instances := (instances s)[n := m], notices := toasts_after (notices s) m,
              links := filter (\<lambda>l. fst l \<noteq> i) (links s)\<rparr>)
            (settle_state k oc (with_toasts (notices s) (instances s ! n))))"

text \<open>The segment after the \<open>await\<close> of a sign-in or a sign-out.  It runs after the store's own segment and
  is one step with it here.  The browser may render once in between, and \<open>LoginRoute\<close> then redirects to
  the root before the form navigates on; that is the step followed by two \<open>navigate\<close> events, to the root
  and to the form's target, so the states it leads to are states of the model as well.\<close>

definition after_signal :: "signal \<Rightarrow> admin \<Rightarrow> admin" where
  "after_signal sig s =
     (let (ts, shell_target) = shell_logout_settled sig (notices s);
          form_target = snd (submit_settled (login_origin s) sig login_form_init);
          target = (case form_target of None \<Rightarrow> shell_target | Some u \<Rightarrow> Some u)
      in s\<lparr>notices := ts, place := (case target of None \<Rightarrow> place s | Some u \<Rightarrow> parse_location u)\<rparr>)"

text \<open>What can happen to the application, before the routes are rendered again; a step is an event and
  the render that follows.\<close>

inductive admin_event :: "matcher \<Rightarrow> admin_module list \<Rightarrow> (jstr \<Rightarrow> jstr) \<Rightarrow> admin \<Rightarrow> admin \<Rightarrow> bool"
  for match selected lower where
  retry: "render match selected (auth (session_world s)) (place s) = Some (InitErrorScreen m) \<Longrightarrow>
    admin_event match selected lower s (s\<lparr>session_world := initialize (session_world s)\<rparr>)"
| submit: "render match selected (auth (session_world s)) (place s) = Some LoginScreen \<Longrightarrow>
    canSubmit (auth (session_world s)) f \<Longrightarrow>
    admin_event match selected lower s
      (s\<lparr>session_world := snd (submit_login f (session_world s)), login_origin := place s\<rparr>)"
| sign_out: "render match selected (auth (session_world s)) (place s) = Some scr \<Longrightarrow> workspace_screen scr \<Longrightarrow>
    \<not> busy (auth (session_world s)) \<Longrightarrow>
    admin_event match selected lower s (s\<lparr>session_world := shell_logout (session_world s)\<rparr>)"
| navigate: "admin_event match selected lower s (s\<lparr>place := loc\<rparr>)"
| event: "mounted s = Some n \<Longrightarrow> module_event lower (auth (session_world s)) (instances s ! n) m \<Longrightarrow>
    admin_event match selected lower s (update_instance n m s)"
| outcome: "deliver i oc (session_world s) = Some (w', sig) \<Longrightarrow>
    settle_link i oc (s\<lparr>session_world := w'\<rparr>) = Some s' \<Longrightarrow>
    admin_event match selected lower s (after_signal sig s')"
| notice: "admin_event match selected lower s (s\<lparr>notices := toast_exec e (notices s)\<rparr>)"

definition admin_step :: "matcher \<Rightarrow> admin_module list \<Rightarrow> (jstr \<Rightarrow> jstr) \<Rightarrow> admin \<Rightarrow> admin \<Rightarrow> bool" where
  "admin_step match selected lower s s' \<longleftrightarrow>
     (\<exists>t. admin_event match selected lower s t \<and> s' = show_route match selected t)"

lemma admin_stepI: "admin_event match selected lower s t \<Longrightarrow> admin_step match selected lower s (show_route match selected t)"
  by (auto simp: admin_step_def)

lemmas admin_step_outcome = admin_stepI [OF admin_event.outcome]

subsection \<open>Requests of a view\<close>

lemma requests_of_frame [simp]:
  "requests_of (leave m) = requests_of m" "requests_of (with_toasts t m) = requests_of m"
  "kind (leave m) = kind m" "kind (with_toasts t m) = kind m" "kind (mount_state mv) = mv"
  by (cases m; simp add: page_unmount_cleanup cleanup_effect_def)+ (cases mv; simp)

lemma signalled_id [simp]: "fst (signalled p) = fst p" "fst \<circ> signalled = fst"
  by (simp_all add: signalled_def fun_eq_iff)

lemma page_settle_requests:
  "page_settle reader fallback c oc v = Some v' \<Longrightarrow> in_flight v' = filter (\<lambda>p. fst p \<noteq> c) (in_flight v) \<and> map_of (in_flight v) c \<noteq> None"
  by (auto simp: page_settle_def Let_def split: option.splits sum.splits prod.splits)

lemma view_settle_requests:
  assumes "view_settle k oc v = Some v'"
  shows "calls v' = filter (\<lambda>p. fst p \<noteq> k) (calls v)"
proof -
  obtain c u r where u: "records_settle k oc v = Some (c, u, r)" "v' = view_continuation c r u"
    using assms by (auto simp: view_settle_def)
  have "calls v' = calls u"
    unfolding u(2) by (cases c) (auto simp: save_settled_def removal_settled_def notify_def split: sum.split)
  then show ?thesis
    using records_settle_frame(2) [OF u(1)] by simp
qed

lemma settle_state_requests:
  assumes "settle_state k oc m = Some m'"
  shows "requests_of m' = filter (\<lambda>r. fst r \<noteq> k) (requests_of m)" "kind m' = kind m"
proof -
  have "requests_of m' = filter (\<lambda>r. fst r \<noteq> k) (requests_of m) \<and> kind m' = kind m"
    using assms
    by (cases m) (auto simp: tasks_settle_def audit_settle_def filter_map o_def case_prod_beta
        dest!: page_settle_requests view_settle_requests)
  then show "requests_of m' = filter (\<lambda>r. fst r \<noteq> k) (requests_of m)" "kind m' = kind m" by blast+
qed

subsection \<open>What holds of a view on the screen\<close>

fun state_ok :: "auth_state \<Rightarrow> module_state \<Rightarrow> bool" where
  "state_ok a (RecordsState v) = records_inv a v"
| "state_ok a (TasksState v) = paged_inv tasks_path v"
| "state_ok a (AuditState v) = paged_inv audit_path v"

lemma records_inv_grants: "auth_grants a = auth_grants b \<Longrightarrow> records_inv a v = records_inv b v"
proof -
  assume g: "auth_grants a = auth_grants b"
  then have c: "can a = can b"
    by (simp add: can_def fun_eq_iff)
  have "allowed a c = allowed b c" for c
    by (cases c) (simp_all add: c)
  then show ?thesis
    unfolding records_inv_def dialogs_ok_def c by simp
qed

lemma state_ok_session: "same_session a b \<Longrightarrow> state_ok a m = state_ok b m"
  by (cases m) (simp_all add: same_session_def records_inv_grants [of a b])

lemma state_ok_mount: "state_ok a (mount_state mv)"
  by (cases mv) (simp_all add: records_mount_inv tasks_mount_inv audit_mount_inv)

lemma state_ok_settle:
  assumes "state_ok a m" "settle_state k oc (with_toasts t m) = Some m'"
  shows "state_ok a m'"
proof (cases m)
  case (RecordsState v)
  then show ?thesis
    using assms view_settle_inv [of a "v\<lparr>toasts := t\<rparr>"] by auto
qed (use assms in \<open>auto simp: tasks_settle_def audit_settle_def intro: paged_inv_settle\<close>)

lemma state_ok_distinct: "state_ok a m \<Longrightarrow> distinct (map fst (requests_of m))"
  by (cases m) (simp_all add: paged_inv_def records_inv_def calls_ok_def case_prod_beta o_def)


subsection \<open>Events of a view only add requests\<close>

lemma page_load_in_flight: "\<exists>ps. in_flight (page_load path b f v) = in_flight v @ ps"
  by (simp add: page_load_def split_beta)

lemma paged_in_flight [simp]:
  "in_flight (rerun_effect v) = in_flight v" "in_flight (next_page v) = in_flight v"
  "in_flight (previous_page v) = in_flight v"
  by (simp_all add: rerun_effect_def arm_timer_def cleanup_effect_def next_page_def previous_page_def
      set_cursor_def Let_def split: option.split)

lemma fire_timer_in_flight: "\<exists>ps. in_flight (fire_timer path v) = in_flight v @ ps"
  by (auto simp: fire_timer_def page_load_def split_beta split: option.split)

lemma tasks_user_requests: "tasks_user v v' \<Longrightarrow> \<exists>ps. in_flight v' = in_flight v @ ps"
  by (induction rule: tasks_user.induct)
    (auto simp: tasks_load_def applyFilters_def intro: page_load_in_flight fire_timer_in_flight)

lemma audit_user_requests: "audit_user v v' \<Longrightarrow> \<exists>ps. in_flight v' = in_flight v @ ps"
  by (induction rule: audit_user.induct)
    (auto simp: audit_load_def intro: page_load_in_flight fire_timer_in_flight)

lemma records_user_requests: "records_user lower a v v' \<Longrightarrow> \<exists>cs. calls v' = calls v @ cs"
  by (induction rule: records_user.induct)
    (auto simp: records_load_def issue_def openCreate_def openEdit_def submit_record_def save_def records_update_def
      records_create_def remove_record_def records_remove_def Let_def split: option.split)

lemma module_event_requests: "module_event lower a m m' \<Longrightarrow> \<exists>rs. requests_of m' = requests_of m @ rs"
  by (induction rule: module_event.induct)
    (auto dest: records_user_requests tasks_user_requests audit_user_requests)

lemma module_event_ok: "module_event lower a m m' \<Longrightarrow> state_ok a m \<Longrightarrow> state_ok a m'"
  by (induction rule: module_event.induct) (auto dest: records_user_inv tasks_user_inv audit_user_inv)

lemma module_event_kind: "module_event lower a m m' \<Longrightarrow> kind m' = kind m"
  by (induction rule: module_event.induct) auto

end
