(* ===== verification/System_Invariant.thy ===== *)
theory System_Invariant
  imports Admin_System
begin

section \<open>Invariants of the running application\<close>

text \<open>
  Every step of the application keeps: the session's world is one the session store reaches; the
  requests of all views, of those left too, correspond one to one to requests in flight; the view on
  the screen meets the invariant of its component for the session's grants; and what is mounted is
  what the routes show.  The grants stay the same while a view is mounted because a session is never
  replaced (\<open>auth_reachable_session\<close>), which is what the views, whose invariants are proved for fixed
  grants, rely on.
\<close>

subsection \<open>Requests in flight stay in flight\<close>

lemma pending_frame [simp]:
  "pending (expire w) = pending w" "pending (set_busy b w) = pending w" "pending (accept_fail w) = pending w"
  "pending (accept_done s ctx w) = pending w" "pending (init_finish i w) = pending w" "pending (init_fail i c w) = pending w"
  by (simp_all add: expire_def set_busy_def accept_fail_def accept_done_def init_finish_def init_fail_def Let_def)

lemma send_keeps: "map_of (pending w) \<subseteq>\<^sub>m map_of (pending (send c opts w))"
  by (simp add: send_def map_le_map_add)

lemma send_keeps_busy [simp]: "map_of (pending w) \<subseteq>\<^sub>m map_of (pending (send c opts (set_busy b w)))"
  using send_keeps [of "set_busy b w"] by simp

lemma init_advance_keeps: "map_of (pending w) \<subseteq>\<^sub>m map_of (pending (init_advance r w))"
  by (auto simp: init_advance_def accept_start_def send_def map_le_map_add Let_def split: option.split)

lemma initialize_keeps: "map_of (pending w) \<subseteq>\<^sub>m map_of (pending (initialize w))"
  by (auto simp: initialize_def send_def map_le_def map_add_def dom_def Let_def split: option.splits prod.splits)

lemma react_keeps: "react c res w = Some (w', sig) \<Longrightarrow> map_of (pending w) \<subseteq>\<^sub>m map_of (pending w')"
  by (cases c)
    (auto simp: settle_meta_def settle_session_def settle_init_context_def settle_login_def settle_login_context_def
      settle_logout_def accept_start_def send_def map_le_map_add Let_def
      split: sum.splits cause.splits option.splits if_splits prod.splits
      intro: map_le_trans [OF _ init_advance_keeps] )

lemma deliver_keeps:
  assumes "deliver i oc w = Some (w', sig)"
  shows "(map_of (pending w))(i := None) \<subseteq>\<^sub>m map_of (pending w')"
proof -
  obtain c rq res w2 where "react c res w2 = Some (w', sig)" "pending w2 = filter (\<lambda>p. fst p \<noteq> i) (pending w)"
    using assms by (auto simp: deliver_def expiry_handler_def api_settle_def run_handler_def Let_def
        split: option.splits fetch_outcome.splits cause.splits if_splits)
  then show ?thesis
    using react_keeps by (metis map_of_filter_fst)
qed

subsection \<open>Every request of a view is in flight\<close>

definition link_ok :: "admin \<Rightarrow> nat \<times> nat \<times> nat \<Rightarrow> bool" where
  "link_ok s l \<longleftrightarrow>
     (case l of (i, n, k) \<Rightarrow>
        n < length (instances s) \<and>
        (\<exists>path opts token. (k, path, opts) \<in> set (requests_of (instances s ! n)) \<and>
           map_of (pending (session_world s)) i = Some (CallOther path, api_request token path opts)))"

definition linked :: "admin \<Rightarrow> bool" where
  "linked s \<longleftrightarrow>
     distinct (map fst (links s)) \<and> distinct (map snd (links s)) \<and> (\<forall>l \<in> set (links s). link_ok s l)"

definition all_linked :: "admin \<Rightarrow> bool" where
  "all_linked s \<longleftrightarrow>
     (\<forall>n < length (instances s). \<forall>r \<in> set (requests_of (instances s ! n)). (n, fst r) \<in> snd ` set (links s))"

lemma link_ok_mono:
  assumes "link_ok s l"
    and "\<And>x. map_of (pending (session_world s)) (fst l) = Some x \<Longrightarrow> map_of (pending (session_world t)) (fst l) = Some x"
    and "length (instances s) \<le> length (instances t)"
    and "set (requests_of (instances s ! fst (snd l))) \<subseteq> set (requests_of (instances t ! fst (snd l)))"
  shows "link_ok t l"
  using assms by (cases l) (fastforce simp: link_ok_def)

lemma map_leD: "f \<subseteq>\<^sub>m g \<Longrightarrow> f x = Some y \<Longrightarrow> g x = Some y"
  by (metis domI map_le_def)

lemma transmit_one_linked:
  assumes "linked s" "ids_ok (session_world s)" "n < length (instances s)" "r \<in> set (requests_of (instances s ! n))"
    and "(n, fst r) \<notin> snd ` set (links s)"
  shows "linked (transmit_one n r s)"
proof -
  let ?w = "session_world s" and ?t = "transmit_one n r s"
  have fresh: "i < next_call ?w" if "(i, x) \<in> set (links s)" for i x
  proof -
    have "\<exists>y. map_of (pending ?w) i = Some y"
      using assms(1) that by (fastforce simp: linked_def link_ok_def)
    then show ?thesis
      using assms(2) by (auto simp: ids_ok_def dest: map_of_SomeD)
  qed
  have "map_of (pending ?w) (next_call ?w) = None"
    using assms(2) by (force simp: map_of_eq_None_iff ids_ok_def)
  then have "link_ok ?t (next_call ?w, n, fst r)"
    using assms(3,4) by (cases r) (auto simp: link_ok_def transmit_one_def send_def map_add_def)
  moreover have "link_ok ?t l" if "l \<in> set (links s)" for l
  proof (rule link_ok_mono)
    show "link_ok s l"
      using that assms(1) by (simp add: linked_def)
    show "map_of (pending (session_world ?t)) (fst l) = Some x" if "map_of (pending ?w) (fst l) = Some x" for x
      using map_leD [OF send_keeps that] by (simp add: transmit_one_def)
  qed (simp_all add: transmit_one_def)
  moreover have "next_call ?w \<notin> fst ` set (links s)"
    using fresh by fastforce
  ultimately show ?thesis
    using assms(1,5) unfolding linked_def by (simp add: transmit_one_def)
qed

lemma transmit_frame [simp]:
  "instances (transmit n rs s) = instances s" "mounted (transmit n rs s) = mounted s" "place (transmit n rs s) = place s"
  "notices (transmit n rs s) = notices s" "auth (session_world (transmit n rs s)) = auth (session_world s)"
  "snd ` set (links (transmit n rs s)) = snd ` set (links s) \<union> (\<lambda>r. (n, fst r)) ` set rs"
  by (induction rs arbitrary: s) (auto simp: transmit_def transmit_one_def)

lemma transmit_linked:
  assumes "linked s" "ids_ok (session_world s)" "n < length (instances s)" "set rs \<subseteq> set (requests_of (instances s ! n))"
    and "distinct (map fst rs)" "\<And>r. r \<in> set rs \<Longrightarrow> (n, fst r) \<notin> snd ` set (links s)"
  shows "linked (transmit n rs s)"
  using assms
proof (induction rs arbitrary: s)
  case Nil
  then show ?case by (simp add: transmit_def)
next
  case (Cons r rs)
  have "linked (transmit_one n r s)"
    using Cons.prems by (intro transmit_one_linked) auto
  then have "linked (transmit n rs (transmit_one n r s))"
    using Cons.prems
    by (intro Cons.IH) (auto simp: transmit_one_def ids_ok_send rev_image_eqI)
  then show ?case by (simp add: transmit_def)
qed

lemma transmit_reachable:
  assumes "auth_reachable (session_world s)" "ready (session_world s)" "authenticated (auth (session_world s))"
  shows "auth_reachable (session_world (transmit n rs s))"
  using assms
proof (induction rs arbitrary: s)
  case (Cons r rs)
  have "auth_reachable (session_world (transmit_one n r s))"
    unfolding transmit_one_def
    using Cons.prems by (simp add: auth_reachable.step auth_step.module_request)
  then show ?case
    using Cons.IH [of "transmit_one n r s"] Cons.prems by (simp add: transmit_def) (simp add: transmit_one_def ready_def)
qed (simp add: transmit_def)

subsection \<open>The invariant of the application\<close>

text \<open>
  \<open>core_inv\<close> holds between the steps and in the middle of one, when the session has changed and the
  routes have not been rendered yet; \<open>routed\<close> says that what is mounted is what the routes show.
\<close>

definition core_inv :: "admin \<Rightarrow> bool" where
  "core_inv s \<longleftrightarrow>
     auth_reachable (session_world s) \<and> linked s \<and> all_linked s \<and>
     (\<forall>m \<in> set (instances s). distinct (map fst (requests_of m))) \<and>
     (\<forall>n. mounted s = Some n \<longrightarrow> n < length (instances s) \<and>
        (authenticated (auth (session_world s)) \<longrightarrow> state_ok (auth (session_world s)) (instances s ! n)))"

definition routed :: "matcher \<Rightarrow> admin_module list \<Rightarrow> admin \<Rightarrow> bool" where
  "routed match selected s \<longleftrightarrow>
     (\<forall>mv. render match selected (auth (session_world s)) (place s) = Some (ShellScreen mv) \<longleftrightarrow> view_kind s = Some mv)"

lemma core_invD:
  assumes "core_inv s"
  shows "auth_reachable (session_world s)" "linked s" "all_linked s" "ids_ok (session_world s)"
    "m \<in> set (instances s) \<Longrightarrow> distinct (map fst (requests_of m))"
    "mounted s = Some n \<Longrightarrow> n < length (instances s)"
    "mounted s = Some n \<Longrightarrow> authenticated (auth (session_world s)) \<Longrightarrow> state_ok (auth (session_world s)) (instances s ! n)"
  using assms auth_reachable_inv unfolding core_inv_def by blast+

lemma render_shell_ready:
  assumes "render match selected (auth w) loc = Some scr" "workspace_screen scr"
  shows "ready w" "authenticated (auth w)"
  using assms
  by (auto simp: render_def SessionBoundary_def AdminRoutes_def LoginRoute_def RequireAuth_def ready_def workspace_screen_def
      split: if_splits target.splits)

lemma follow_end: "follow n view loc = Some (loc', scr) \<Longrightarrow> view loc' = Some scr \<and> (\<forall>u. scr \<noteq> Redirect u)"
proof (induction n arbitrary: loc)
  case 0
  then show ?case by (subst (asm) follow.simps) (auto split: option.splits screen.splits)
next
  case (Suc n)
  then show ?case by (subst (asm) follow.simps) (auto split: option.splits screen.splits)
qed

lemma core_inv_linked_update:
  assumes "core_inv s" "set (requests_of (instances s ! n)) \<subseteq> set (requests_of m)" "n < length (instances s)"
  shows "linked (s\<lparr>instances := (instances s)[n := m], mounted := u, place := p\<rparr>)"
proof -
  let ?t = "s\<lparr>instances := (instances s)[n := m], mounted := u, place := p\<rparr>"
  have "link_ok ?t l" if "l \<in> set (links s)" for l
    by (rule link_ok_mono [of s]) (use that assms in \<open>auto simp: core_inv_def linked_def nth_list_update\<close>)
  then show ?thesis
    using core_invD(2) [OF assms(1)] by (simp add: linked_def)
qed

lemma unmount_core:
  assumes "core_inv s"
  shows "core_inv ((unmount s)\<lparr>place := p\<rparr>)" 
proof (cases "mounted s")
  case None
  then show ?thesis
    using assms by (simp add: unmount_def core_inv_def linked_def all_linked_def link_ok_def)
next
  case (Some n)
  let ?t = "s\<lparr>instances := (instances s)[n := leave (instances s ! n)], mounted := None, place := p\<rparr>"
  have n: "n < length (instances s)"
    using core_invD(6) [OF assms Some] .
  have "linked ?t"
    by (rule core_inv_linked_update) (simp_all add: assms n)
  moreover have "all_linked ?t"
    using core_invD(3) [OF assms] n by (auto simp: all_linked_def nth_list_update)
  moreover have "distinct (map fst (requests_of m))" if "m \<in> set ((instances s)[n := leave (instances s ! n)])" for m
    using set_update_subset_insert [THEN subsetD, OF that] core_invD(5) [OF assms] n by auto
  ultimately show ?thesis
    using assms Some by (simp add: unmount_def core_inv_def)
qed

lemma mount_core:
  assumes "core_inv s" "ready (session_world s)" "authenticated (auth (session_world s))"
  shows "core_inv (mount mv s)" "view_kind (mount mv s) = Some mv" "place (mount mv s) = place s"
    "auth (session_world (mount mv s)) = auth (session_world s)"
proof -
  let ?n = "length (instances s)" and ?m = "mount_state mv"
  let ?t = "s\<lparr>instances := instances s @ [?m], mounted := Some ?n\<rparr>"
  have e: "mount mv s = transmit ?n (requests_of ?m) ?t"
    by (simp add: mount_def Let_def)
  have d: "distinct (map fst (requests_of ?m))"
    using state_ok_distinct [OF state_ok_mount] .
  have old: "\<forall>l \<in> set (links s). fst (snd l) < ?n"
    using core_invD(2) [OF assms(1)] by (auto simp: linked_def link_ok_def)
  have "link_ok ?t l" if "l \<in> set (links s)" for l
    by (rule link_ok_mono [of s]) (use that old core_invD(2) [OF assms(1)] in \<open>auto simp: linked_def nth_append\<close>)
  then have "linked ?t"
    using core_invD(2) [OF assms(1)] by (simp add: linked_def)
  then have "linked (mount mv s)"
    unfolding e using old d core_invD(4) [OF assms(1)] by (intro transmit_linked) (fastforce simp: nth_append)+
  moreover have "all_linked (mount mv s)"
    using core_invD(3) [OF assms(1)] unfolding e all_linked_def
    by (auto simp: nth_append less_Suc_eq)
  moreover have "auth_reachable (session_world (mount mv s))"
    unfolding e using core_invD(1) [OF assms(1)] assms(2,3) by (intro transmit_reachable) simp_all
  ultimately show "core_inv (mount mv s)"
    using core_invD(5) [OF assms(1)] d state_ok_mount by (auto simp: core_inv_def e)
  show "view_kind (mount mv s) = Some mv" "place (mount mv s) = place s"
      "auth (session_world (mount mv s)) = auth (session_world s)"
    by (simp_all add: e view_kind_def)
qed

lemma unmount_frame [simp]:
  "mounted (unmount s) = None" "session_world (unmount s) = session_world s" "place (unmount s) = place s"
  "notices (unmount s) = notices s" "view_kind (unmount s) = None"
  by (simp_all add: unmount_def view_kind_def split: option.split)

lemma unmount_place [simp]: "(unmount s)\<lparr>place := place s\<rparr> = unmount s"
  by (simp add: unmount_def split: option.split)

lemma show_route_inv:
  assumes "core_inv s"
  shows "core_inv (show_route match selected s)" "routed match selected (show_route match selected s)"
    "auth (session_world (show_route match selected s)) = auth (session_world s)"
proof -
  let ?view = "render match selected (auth (session_world s))"
  let ?Q = "\<lambda>t. core_inv t \<and> routed match selected t \<and> auth (session_world t) = auth (session_world s)"
  have m: "?Q (mount mv ((unmount s)\<lparr>place := loc\<rparr>))" if "?view loc = Some (ShellScreen mv)" for mv loc
    using that mount_core [OF unmount_core [OF assms]] render_shell_ready [OF that]
    by (simp add: routed_def workspace_screen_def)
  have u: "?Q ((unmount s)\<lparr>place := loc\<rparr>)" if "\<And>mv. ?view loc \<noteq> Some (ShellScreen mv)" for loc
    using that unmount_core [OF assms] by (simp add: routed_def view_kind_def)
  have "?Q (show_route match selected s)"
  proof (cases "view_kind s \<noteq> None \<and> ?view (place s) = map_option ShellScreen (view_kind s)")
    case True
    then have "show_route match selected s = s"
      by (simp add: show_route_def)
    then show ?thesis using assms True by (auto simp: routed_def)
  next
    case False
    then have e: "show_route match selected s =
        (case follow 2 ?view (place s) of
           None \<Rightarrow> unmount s
         | Some (loc, scr) \<Rightarrow> (case scr of ShellScreen mv \<Rightarrow> mount mv ((unmount s)\<lparr>place := loc\<rparr>) | _ \<Rightarrow> (unmount s)\<lparr>place := loc\<rparr>))"
      unfolding show_route_def Let_def by (simp only: False if_False)
    show ?thesis
    proof (cases "follow 2 ?view (place s)")
      case None
      then show ?thesis
        using e u [of "place s"] follow_screen [of ?view "place s" _ 2] by fastforce
    next
      case (Some p)
      then have "?view (fst p) = Some (snd p)"
        using follow_end [of 2 ?view "place s" "fst p" "snd p"] by simp
      then show ?thesis
        using m [of "fst p"] u [of "fst p"] by (cases p; cases "snd p") (simp_all add: e Some)
    qed
  qed
  then show "core_inv (show_route match selected s)" "routed match selected (show_route match selected s)"
    "auth (session_world (show_route match selected s)) = auth (session_world s)" by blast+
qed

subsection \<open>Every step keeps the invariant\<close>

lemma core_inv_world:
  assumes "core_inv s" "auth_reachable w"
    and "\<And>l x. l \<in> set (links s) \<Longrightarrow> map_of (pending (session_world s)) (fst l) = Some x \<Longrightarrow>
      map_of (pending w) (fst l) = Some x"
    and "authenticated (auth w) \<Longrightarrow> authenticated (auth (session_world s)) \<Longrightarrow> same_session (auth (session_world s)) (auth w)"
    and "authenticated (auth w) \<Longrightarrow> mounted s \<noteq> None \<Longrightarrow> authenticated (auth (session_world s))"
  shows "core_inv (s\<lparr>session_world := w, place := p, login_origin := l\<rparr>)"
proof -
  let ?t = "s\<lparr>session_world := w, place := p, login_origin := l\<rparr>"
  have "link_ok ?t x" if "x \<in> set (links s)" for x
  proof (rule link_ok_mono [of s])
    show "link_ok s x"
      using that core_invD(2) [OF assms(1)] by (simp add: linked_def)
    show "map_of (pending (session_world ?t)) (fst x) = Some y" if "map_of (pending (session_world s)) (fst x) = Some y" for y
      using assms(3) [OF \<open>x \<in> set (links s)\<close> that] by simp
  qed simp_all
  then have "linked ?t"
    using core_invD(2) [OF assms(1)] by (simp add: linked_def)
  moreover have "state_ok (auth w) (instances s ! n)" if "mounted s = Some n" "authenticated (auth w)" for n
    using that assms(4,5) core_invD(7) [OF assms(1) that(1)] state_ok_session by blast
  ultimately show ?thesis
    using assms(1,2) by (simp add: core_inv_def all_linked_def)
qed

lemma routed_mounted:
  assumes "routed match selected s" "mounted s = Some n"
  shows "render match selected (auth (session_world s)) (place s) = Some (ShellScreen (kind (instances s ! n)))"
    "ready (session_world s)" "authenticated (auth (session_world s))"
proof -
  show r: "render match selected (auth (session_world s)) (place s) = Some (ShellScreen (kind (instances s ! n)))"
    using assms by (simp add: routed_def view_kind_def)
  show "ready (session_world s)" "authenticated (auth (session_world s))"
    using render_shell_ready [OF r] by (simp_all add: workspace_screen_def)
qed

lemma show_route_routed:
  assumes "routed match selected s" "mounted s = Some n"
  shows "show_route match selected s = s"
  using routed_mounted(1) [OF assms] assms(2) by (simp add: show_route_def view_kind_def)

lemma link_ok_request: "link_ok s (i, n, k) \<Longrightarrow> k \<in> fst ` set (requests_of (instances s ! n))"
  unfolding link_ok_def by (force intro: image_eqI [where f = fst])

lemma new_request_unlinked:
  assumes "linked s" "distinct (map fst (requests_of (instances s ! n) @ rs))" "r \<in> set rs"
  shows "(n, fst r) \<notin> snd ` set (links s)"
proof
  assume "(n, fst r) \<in> snd ` set (links s)"
  then obtain i where "(i, n, fst r) \<in> set (links s)" by auto
  then have "link_ok s (i, n, fst r)"
    using assms(1) by (simp add: linked_def)
  then have "fst r \<in> fst ` set (requests_of (instances s ! n))"
    by (rule link_ok_request)
  with assms(2,3) show False by auto
qed

lemma update_instance_inv:
  assumes "core_inv s" "routed match selected s" "mounted s = Some n"
    and "module_event lower (auth (session_world s)) (instances s ! n) m"
  shows "core_inv (update_instance n m s)" "routed match selected (update_instance n m s)"
proof -
  let ?t = "s\<lparr>instances := (instances s)[n := m]\<rparr>" and ?rs = "issued (instances s ! n) m"
  have n: "n < length (instances s)"
    using core_invD(6) [OF assms(1,3)] .
  note w = routed_mounted [OF assms(2,3)]
  have ok: "state_ok (auth (session_world s)) m"
    using module_event_ok [OF assms(4)] core_invD(7) [OF assms(1,3) w(3)] by blast
  obtain rs where rs: "requests_of m = requests_of (instances s ! n) @ rs"
    using module_event_requests [OF assms(4)] by blast
  then have i: "?rs = rs"
    using state_ok_distinct [OF ok] by (auto simp: issued_def filter_empty_conv intro!: filter_True)
  have "linked (s\<lparr>instances := (instances s)[n := m], mounted := mounted s, place := place s\<rparr>)"
    by (rule core_inv_linked_update) (simp_all add: assms(1) n rs)
  then have "linked ?t" by simp
  moreover have "(n, fst r) \<notin> snd ` set (links s)" if "r \<in> set rs" for r
    using new_request_unlinked [OF core_invD(2) [OF assms(1)] _ that] state_ok_distinct [OF ok] rs by simp
  ultimately have l: "linked (update_instance n m s)"
    unfolding update_instance_def i using n state_ok_distinct [OF ok] core_invD(4) [OF assms(1)]
    by (intro transmit_linked) (auto simp: rs)
  have "all_linked (update_instance n m s)"
    using core_invD(3) [OF assms(1)] n unfolding all_linked_def update_instance_def i
    by (auto simp: rs nth_list_update)
  moreover have "auth_reachable (session_world (update_instance n m s))"
    unfolding update_instance_def using core_invD(1) [OF assms(1)] w(2,3) by (intro transmit_reachable) simp_all
  moreover have "distinct (map fst (requests_of x))" if "x \<in> set ((instances s)[n := m])" for x
    using set_update_subset_insert [THEN subsetD, OF that] core_invD(5) [OF assms(1)] state_ok_distinct [OF ok] by auto
  ultimately show "core_inv (update_instance n m s)"
    using l ok n assms(3) by (auto simp: core_inv_def update_instance_def)
  show "routed match selected (update_instance n m s)"
    using assms(2,3) n module_event_kind [OF assms(4)]
    by (simp add: routed_def view_kind_def update_instance_def)
qed

lemma core_inv_frame [simp]:
  "core_inv (s\<lparr>notices := t\<rparr>) = core_inv s" "core_inv (s\<lparr>place := p\<rparr>) = core_inv s"
  by (simp_all add: core_inv_def linked_def all_linked_def link_ok_def)

lemma after_signal_core [simp]: "core_inv (after_signal sig s) = core_inv s"
  by (simp add: after_signal_def case_prod_beta Let_def)

text \<open>The state after a settled request: its link is gone, and the view it belongs to has one
  unsettled request less.\<close>

lemma settled_linked:
  assumes "linked s" "deliver i oc (session_world s) = Some (w, sig)" "map_of (links s) i = Some (n, k)"
    and "requests_of m = filter (\<lambda>r. fst r \<noteq> k) (requests_of (instances s ! n))"
  shows "linked (s\<lparr>session_world := w, instances := (instances s)[n := m], notices := t,
    links := filter (\<lambda>l. fst l \<noteq> i) (links s)\<rparr>)" (is "linked ?t")
proof -
  have l: "(i, n, k) \<in> set (links s)"
    using assms(3) by (rule map_of_SomeD)
  have d: "distinct (map fst (links s))" "distinct (map snd (links s))"
    using assms(1) by (simp_all add: linked_def)
  have n: "n < length (instances s)"
    using l assms(1) by (auto simp: linked_def link_ok_def)
  have "link_ok ?t x" if x: "x \<in> set (links s)" "fst x \<noteq> i" for x
  proof -
    obtain j n' k' where e: "x = (j, n', k')" by (cases x)
    have "snd x \<noteq> (n, k)"
      using x l d(2) inj_onD [of snd "set (links s)" x "(i, n, k)"] by (auto simp: distinct_map)
    moreover have "link_ok s x"
      using x(1) assms(1) by (simp add: linked_def)
    moreover have "map_of (pending w) j = Some y" if "map_of (pending (session_world s)) j = Some y" for y
      using map_leD [OF deliver_keeps [OF assms(2)]] that x(2) e by simp
    ultimately show ?thesis
      using n unfolding e link_ok_def by (cases "n' = n") (fastforce simp: assms(4))+
  qed
  then show ?thesis
    using d by (auto simp: linked_def distinct_map_filter)
qed

lemma settled_all_linked:
  assumes "linked s" "all_linked s" "map_of (links s) i = Some (n, k)"
    and "requests_of m = filter (\<lambda>r. fst r \<noteq> k) (requests_of (instances s ! n))"
  shows "all_linked (s\<lparr>session_world := w, instances := (instances s)[n := m], notices := t,
    links := filter (\<lambda>l. fst l \<noteq> i) (links s)\<rparr>)" (is "all_linked ?t")
  unfolding all_linked_def
proof (intro allI impI ballI)
  fix n' r assume n': "n' < length (instances ?t)" and r: "r \<in> set (requests_of (instances ?t ! n'))"
  then have "r \<in> set (requests_of (instances s ! n'))" and k: "n' = n \<Longrightarrow> fst r \<noteq> k"
    using assms(4) by (cases "n' = n"; simp)+
  then obtain j where j: "(j, n', fst r) \<in> set (links s)"
    using assms(2) n' by (fastforce simp: all_linked_def)
  moreover have "distinct (map fst (links s))"
    using assms(1) by (simp add: linked_def)
  then have "j \<noteq> i"
    using k assms(3) map_of_is_SomeI [OF _ j] by (metis option.inject prod.inject)
  ultimately show "(n', fst r) \<in> snd ` set (links ?t)" by force
qed

lemma settled_state_ok:
  assumes "core_inv s" "deliver i oc (session_world s) = Some (w, sig)"
    and "settle_state k oc (with_toasts t (instances s ! n)) = Some m"
    and "mounted s = Some n'" "authenticated (auth (session_world s))" "authenticated (auth w)"
  shows "state_ok (auth w) ((instances s)[n := m] ! n')"
proof -
  have "same_session (auth (session_world s)) (auth w)"
    using auth_reachable_session [OF core_invD(1) [OF assms(1)] auth_step.outcome [OF assms(2)]] assms(5,6) by simp
  moreover have "state_ok (auth (session_world s)) (instances s ! n')"
    using core_invD(7) [OF assms(1,4,5)] .
  ultimately show ?thesis
    using state_ok_settle [OF _ assms(3)] state_ok_session core_invD(6) [OF assms(1,4)] by (cases "n' = n") auto
qed

lemma settle_link_core:
  assumes "core_inv s" "deliver i oc (session_world s) = Some (w, sig)" "map_of (links s) i = Some (n, k)"
    and "settle_state k oc (with_toasts (notices s) (instances s ! n)) = Some m"
    and "mounted s \<noteq> None \<Longrightarrow> authenticated (auth (session_world s))"
  shows "core_inv (s\<lparr>session_world := w, instances := (instances s)[n := m], notices := t,
    links := filter (\<lambda>l. fst l \<noteq> i) (links s)\<rparr>)"
proof -
  have n: "n < length (instances s)"
    using map_of_SomeD [OF assms(3)] core_invD(2) [OF assms(1)] by (auto simp: linked_def link_ok_def)
  have m: "requests_of m = filter (\<lambda>r. fst r \<noteq> k) (requests_of (instances s ! n))"
    using settle_state_requests [OF assms(4)] by simp
  have "distinct (map fst (requests_of x))" if "x \<in> set ((instances s)[n := m])" for x
    using set_update_subset_insert [THEN subsetD, OF that] core_invD(5) [OF assms(1)] n
    by (auto simp: m distinct_map_filter)
  moreover have "auth_reachable w"
    using core_invD(1) [OF assms(1)] assms(2) by (blast intro: auth_reachable.step auth_step.outcome)
  ultimately show ?thesis
    using settled_linked [OF core_invD(2) [OF assms(1)] assms(2,3) m]
      settled_all_linked [OF core_invD(2,3) [OF assms(1)] assms(3) m]
      settled_state_ok [OF assms(1,2,4)] assms(5) core_invD(6) [OF assms(1)] by (simp add: core_inv_def)
qed

lemma outcome_core:
  assumes "core_inv s" "routed match selected s" "deliver i oc (session_world s) = Some (w, sig)"
    and "settle_link i oc (s\<lparr>session_world := w\<rparr>) = Some s'"
  shows "core_inv s'"
proof (cases "map_of (links s) i")
  case None
  have "auth_reachable w"
    using core_invD(1) [OF assms(1)] assms(3) by (blast intro: auth_reachable.step auth_step.outcome)
  moreover have "map_of (pending w) (fst l) = Some x"
    if "l \<in> set (links s)" "map_of (pending (session_world s)) (fst l) = Some x" for l x
  proof -
    have "fst l \<noteq> i"
      using None that(1) by (force simp: map_of_eq_None_iff)
    then show ?thesis
      using map_leD [OF deliver_keeps [OF assms(3)]] that(2) by simp
  qed
  ultimately have "core_inv (s\<lparr>session_world := w, place := place s, login_origin := login_origin s\<rparr>)"
    using core_inv_world [OF assms(1)] auth_reachable_session [OF core_invD(1) [OF assms(1)] auth_step.outcome [OF assms(3)]]
      routed_mounted(3) [OF assms(2)] by blast
  then show ?thesis
    using assms(4) None by (simp add: settle_link_def)
next
  case (Some p)
  then obtain m where "settle_state (snd p) oc (with_toasts (notices s) (instances s ! fst p)) = Some m"
      "s' = s\<lparr>session_world := w, instances := (instances s)[fst p := m], notices := toasts_after (notices s) m,
        links := filter (\<lambda>l. fst l \<noteq> i) (links s)\<rparr>"
    using assms(4) by (cases p) (auto simp: settle_link_def)
  then show ?thesis
    using settle_link_core [OF assms(1,3), of "fst p" "snd p"] Some routed_mounted(3) [OF assms(2)] by auto
qed

definition system_inv :: "matcher \<Rightarrow> admin_module list \<Rightarrow> admin \<Rightarrow> bool" where
  "system_inv match selected s \<longleftrightarrow> core_inv s \<and> routed match selected s"

lemma system_inv_world:
  assumes "system_inv match selected s" "auth_step (session_world s) w" "map_of (pending (session_world s)) \<subseteq>\<^sub>m map_of (pending w)"
  shows "core_inv (s\<lparr>session_world := w, place := p, login_origin := l\<rparr>)"
proof (rule core_inv_world)
  show c: "core_inv s" and "auth_reachable w"
    using assms(1,2) core_invD(1) auth_reachable.step by (auto simp: system_inv_def)
  show "same_session (auth (session_world s)) (auth w)" if "authenticated (auth w)" "authenticated (auth (session_world s))"
    using auth_reachable_session [OF core_invD(1) [OF c] assms(2)] that by blast
  show "authenticated (auth (session_world s))" if "mounted s \<noteq> None"
    using routed_mounted(3) that assms(1) by (auto simp: system_inv_def)
qed (use map_leD [OF assms(3)] in blast)

lemma render_screens:
  "render match selected (auth w) loc = Some (InitErrorScreen m) \<Longrightarrow> initialized (auth w) \<and> initializationError (auth w) \<noteq> []"
  "render match selected (auth w) loc = Some LoginScreen \<Longrightarrow> ready w \<and> \<not> authenticated (auth w)"
  by (auto simp: render_def SessionBoundary_def AdminRoutes_def LoginRoute_def RequireAuth_def index_element_def ready_def
      split: if_splits target.splits list.splits)

lemma admin_event_core:
  assumes "admin_event match selected lower s t" "system_inv match selected s"
  shows "core_inv t"
  using assms(1)
proof (cases rule: admin_event.cases)
  case (retry m)
  have "auth_step (session_world s) (initialize (session_world s))"
    using render_screens(1) [OF retry(2)] by (blast intro: auth_step.retry)
  from system_inv_world [OF assms(2) this initialize_keeps, where p = "place s" and l = "login_origin s"] show ?thesis
    by (simp add: retry(1))
next
  case (submit f)
  have "auth_step (session_world s) (snd (submit_login f (session_world s)))"
    using render_screens(2) [OF submit(2)] submit(3)
    by (auto simp: submit_login_def canSubmit_def intro: auth_step.submit_login)
  moreover have "map_of (pending (session_world s)) \<subseteq>\<^sub>m map_of (pending (snd (submit_login f (session_world s))))"
    using submit(3) by (simp add: submit_login_def login_def)
  ultimately show ?thesis
    using system_inv_world [OF assms(2), where p = "place s" and l = "place s"] by (simp add: submit(1))
next
  case (sign_out scr)
  have "auth_step (session_world s) (shell_logout (session_world s))"
    using render_shell_ready [OF sign_out(2,3)] sign_out(4) by (auto simp: shell_logout_def intro: auth_step.click_logout)
  moreover have "map_of (pending (session_world s)) \<subseteq>\<^sub>m map_of (pending (shell_logout (session_world s)))"
    by (simp add: shell_logout_def logout_def)
  ultimately show ?thesis
    using system_inv_world [OF assms(2), where p = "place s" and l = "login_origin s"] by (simp add: sign_out(1))
next
  case (event n m)
  then show ?thesis
    using assms(2) update_instance_inv(1) unfolding system_inv_def by blast
next
  case (outcome i oc w' sig s'')
  then show ?thesis
    using assms(2) outcome_core [OF _ _ outcome(2,3)] by (auto simp: system_inv_def)
qed (use assms(2) in \<open>simp_all add: system_inv_def\<close>)

lemma admin_step_inv: "admin_step match selected lower s s' \<Longrightarrow> system_inv match selected s \<Longrightarrow> system_inv match selected s'"
  using admin_event_core show_route_inv unfolding admin_step_def system_inv_def by blast

lemma admin_start_inv: "system_inv match selected (admin_start match selected loc)"
  unfolding admin_start_def system_inv_def
  by (intro conjI show_route_inv) (simp_all add: core_inv_def linked_def all_linked_def auth_reachable.mounted)

interpretation ad: invariant_system "admin_start match selected loc" "admin_step match selected lower" "system_inv match selected"
  for match selected loc lower
  by unfold_locales (rule admin_start_inv, erule (1) admin_step_inv)

subsection \<open>The expiry handler stays registered\<close>

lemma handler_frame [simp]:
  "handler_on (expire w) = handler_on w" "handler_on (set_busy b w) = handler_on w"
  "handler_on (accept_fail w) = handler_on w" "handler_on (accept_done s ctx w) = handler_on w"
  "handler_on (init_finish i w) = handler_on w" "handler_on (init_fail i c w) = handler_on w"
  "handler_on (accept_start s k w) = handler_on w" "handler_on (init_advance r w) = handler_on w"
  "handler_on (initialize w) = handler_on w"
  by (simp_all add: expire_def set_busy_def accept_fail_def accept_done_def init_finish_def init_fail_def
      accept_start_def init_advance_def initialize_def Let_def split: option.split prod.split)

lemma handler_react: "react c res w = Some (w', sig) \<Longrightarrow> handler_on w' = handler_on w"
  by (cases c)
    (auto simp: settle_meta_def settle_session_def settle_init_context_def settle_login_def settle_login_context_def
      settle_logout_def Let_def split: sum.splits cause.splits option.splits if_splits prod.splits)

lemma auth_reachable_handler: "auth_reachable w \<Longrightarrow> handler_on w"
proof (induction rule: auth_reachable.induct)
  case mounted
  then show ?case by (simp add: world_init_def)
next
  case (step w w')
  from step(2) show ?case
  proof (cases rule: auth_step.cases)
    case (outcome i oc sig)
    then show ?thesis
      using auth_reachable_inv [OF step(1)] step(3)
      by (elim deliver_cases) (auto dest: handler_react)
  qed (use step(3) in \<open>simp_all add: login_def logout_def\<close>)
qed

end
