(* ===== verification/System_Properties.thy ===== *)
theory System_Properties
  imports System_Invariant
begin

section \<open>Properties of the running application\<close>

text \<open>
  The properties that need more than one component: what is mounted, for whom, which requests are
  in flight for it, and what happens to the requests of a view that has been left.  The witnesses
  are taken from one run: the application starts at the records module, the session is restored, a
  record is saved, and the user leaves the view while the save is in flight.
\<close>

subsection \<open>A run\<close>

lemma reachable_inv:
  assumes "rtranclp (admin_step match selected lower) (admin_start match selected loc) s"
  shows "core_inv s" "routed match selected s"
  using ad.reach_inv [OF assms] by (simp_all add: system_inv_def)

lemma show_route_loading:
  assumes "\<not> initialized (auth (session_world s))" "mounted s = None"
  shows "show_route match selected s = s"
proof -
  have "follow 2 (render match selected (auth (session_world s))) (place s) = Some (place s, LoadingScreen)"
    using assms(1) by (intro follow_screen) (simp_all add: render_def SessionBoundary_def)
  moreover have "view_kind s = None" "unmount s = s"
    using assms(2) by (simp_all add: view_kind_def unmount_def)
  ultimately show ?thesis by (simp add: show_route_def)
qed

lemma session_outcome:
  assumes "deliver i oc (session_world s) = Some (w, Silent)" "links s = []"
  shows "admin_step match selected lower s (show_route match selected (s\<lparr>session_world := w\<rparr>))"
proof -
  have "settle_link i oc (s\<lparr>session_world := w\<rparr>) = Some (s\<lparr>session_world := w\<rparr>)"
    using assms(2) by (simp add: settle_link_def)
  from admin_step_outcome [OF assms(1) this] show ?thesis
    by (simp add: after_signal_def shell_logout_settled_def submit_settled_def)
qed

definition records_descriptor_json :: jval where
  "records_descriptor_json = JObj [(lit ''id'', JStr (lit ''records'')), (lit ''label'', JStr (lit ''Records'')),
     (lit ''path'', JStr (lit ''/records'')), (lit ''icon'', JStr (lit ''database'')), (lit ''order'', JNum 100)]"

definition records_context_json :: jval where
  "records_context_json = JObj [(lit ''modules'', JArr [records_descriptor_json]),
     (lit ''grants'', JArr [JStr (lit ''records.create'')])]"

definition records_context :: admin_context where
  "records_context = \<lparr>context_modules = [\<lparr>desc_id = lit ''records'', desc_label = lit ''Records'', desc_path = lit ''/records'',
     desc_icon = lit ''database'', desc_order = 100, desc_permissions = None, requiredPermissions = None\<rparr>],
     context_grants = [lit ''records.create'']\<rparr>"

lemma records_context_read: "as_admin_context records_context_json = Some records_context"
  by (simp add: records_context_json_def records_descriptor_json_def records_context_def as_admin_context_def as_descriptor_def
      str_field_def num_field_def opt_field_def)

definition records_place :: location where
  "records_place = \<lparr>pathname = lit ''/records'', loc_search = [], loc_hash = []\<rparr>"

definition app_at :: "world \<Rightarrow> admin" where
  "app_at w = \<lparr>session_world = w, place = records_place, instances = [], mounted = None, links = [],
     notices = toast_init, login_origin = records_place\<rparr>"

lemma records_sign_in:
  "\<exists>w1 w2 w3. deliver 0 (ok sample_meta_json) (initialize world_init) = Some (w1, Silent) \<and> \<not> initialized (auth w1) \<and>
     deliver 1 (ok sample_session_json) w1 = Some (w2, Silent) \<and> \<not> initialized (auth w2) \<and>
     deliver 2 (ok records_context_json) w2 = Some (w3, Silent) \<and> ready w3 \<and>
     auth_actor (auth w3) = Some (session_actor sample_session) \<and> auth_modules (auth w3) = context_modules records_context \<and>
     auth_grants (auth w3) = {lit ''records.create''} \<and> next_call w3 = 3"
  by (simp add: ok_def auth_eval records_context_read) (simp add: records_context_def)

abbreviation app_steps :: "(jstr \<Rightarrow> jstr) \<Rightarrow> admin \<Rightarrow> bool" where
  "app_steps lower s \<equiv> rtranclp (admin_step exact_matcher selectedAdminModules lower)
     (admin_start exact_matcher selectedAdminModules records_place) s"

lemma records_render:
  assumes "ready w" "auth_actor (auth w) = Some x" "auth_modules (auth w) = context_modules records_context"
  shows "render exact_matcher selectedAdminModules (auth w) records_place = Some (ShellScreen module_view.RecordsView)"
    "render exact_matcher selectedAdminModules (auth w) (parse_location (lit ''/'')) = Some (Redirect (lit ''/records''))"
    "parse_location (lit ''/records'') = records_place"
  using assms
  by (simp_all add: render_def SessionBoundary_def ready_def records_place_def AdminRoutes_def parse_slash parse_location_def
      useAdminModules_def selectedAdminModules_def recordsModule_def resolveAdminModules_def hasDuplicateIDs_def
      resolve_one_def available_def permitted_def resolved_def exact_matcher_def RequireAuth_def authenticated_def
      records_context_def index_element_def) (simp_all add: lit_def)

lemma records_app:
  obtains s x where "app_steps lower s" "mounted s = Some 0" "instances s = [RecordsState records_mount]"
    "links s = [(3, 0, 0)]" "place s = records_place" "next_call (session_world s) = 4"
    "ready (session_world s)" "auth_actor (auth (session_world s)) = Some x"
    "auth_modules (auth (session_world s)) = context_modules records_context"
    "auth_grants (auth (session_world s)) = {lit ''records.create''}"
proof -
  obtain w1 w2 w3 where d: "deliver 0 (ok sample_meta_json) (initialize world_init) = Some (w1, Silent)" "\<not> initialized (auth w1)"
      "deliver 1 (ok sample_session_json) w1 = Some (w2, Silent)" "\<not> initialized (auth w2)"
      "deliver 2 (ok records_context_json) w2 = Some (w3, Silent)"
    and w: "ready w3" "auth_actor (auth w3) = Some (session_actor sample_session)"
      "auth_modules (auth w3) = context_modules records_context" "auth_grants (auth w3) = {lit ''records.create''}"
      "next_call w3 = 3"
    using records_sign_in by blast
  let ?step = "admin_step exact_matcher selectedAdminModules lower"
  have start: "admin_start exact_matcher selectedAdminModules records_place = app_at (initialize world_init)"
    unfolding admin_start_def app_at_def by (rule show_route_loading) (simp_all add: auth_eval)
  have a [simp]: "session_world (app_at w) = w" "links (app_at w) = []" "(app_at w)\<lparr>session_world := u\<rparr> = app_at u"
      "mounted (app_at w) = None" "place (app_at w) = records_place" "instances (app_at w) = []" for w u
    by (simp_all add: app_at_def)
  have "?step (app_at (initialize world_init)) (app_at w1)" "?step (app_at w1) (app_at w2)"
    using session_outcome [of 0 _ "app_at (initialize world_init)"] session_outcome [of 1 _ "app_at w1"] d
    by (simp_all add: show_route_loading) (metis show_route_loading a(1,4))+
  moreover have "?step (app_at w2) (show_route exact_matcher selectedAdminModules (app_at w3))"
    using session_outcome [of 2 _ "app_at w2"] d(5) by simp
  ultimately have r: "app_steps lower (show_route exact_matcher selectedAdminModules (app_at w3))"
    unfolding start by (meson converse_rtranclp_into_rtranclp rtranclp.rtrancl_refl)
  have "follow 2 (render exact_matcher selectedAdminModules (auth w3)) records_place =
      Some (records_place, ShellScreen module_view.RecordsView)"
    by (rule follow_screen) (simp_all add: records_render(1) [OF w(1-3)])
  moreover have "unmount (app_at w3) = app_at w3"
    by (simp add: unmount_def)
  moreover have p: "(app_at w3)\<lparr>place := records_place\<rparr> = app_at w3"
    by (simp add: app_at_def)
  ultimately have e: "show_route exact_matcher selectedAdminModules (app_at w3) = mount module_view.RecordsView (app_at w3)"
    by (simp add: show_route_def view_kind_def p)
  have c: "calls records_mount = [(0, LoadCall)]"
    by (simp add: records_eval)
  show thesis
    by (rule that [OF r]) (use w in \<open>simp_all add: e mount_def c transmit_def transmit_one_def ready_def\<close>)
qed

lemma event_step:
  assumes "core_inv s" "routed match selected s" "mounted s = Some n"
    and "module_event lower (auth (session_world s)) (instances s ! n) m"
  shows "admin_step match selected lower s (update_instance n m s)"
proof -
  have "show_route match selected (update_instance n m s) = update_instance n m s"
    using update_instance_inv(2) [OF assms] assms(3) by (intro show_route_routed) (simp_all add: update_instance_def)
  then show ?thesis
    using admin_stepI [OF admin_event.event [OF assms(3,4)], of match selected] by simp
qed

lemma records_event:
  assumes "app_steps lower s" "mounted s = Some n" "instances s ! n = RecordsState v"
    and "records_user lower (auth (session_world s)) v v'"
  shows "app_steps lower (update_instance n (RecordsState v') s)"
proof -
  have "module_event lower (auth (session_world s)) (instances s ! n) (RecordsState v')"
    using assms(3,4) by (simp add: module_event.records)
  then show ?thesis
    using assms(1) event_step [OF reachable_inv [OF assms(1)] assms(2)] by (meson rtranclp.rtrancl_into_rtrancl)
qed

lemma update_instance_quiet:
  assumes "calls v' = calls v" "instances s ! n = RecordsState v"
  shows "update_instance n (RecordsState v') s = s\<lparr>instances := (instances s)[n := RecordsState v']\<rparr>"
  using assms by (auto simp: update_instance_def issued_def transmit_def filter_empty_conv rev_image_eqI)

text \<open>The user opens the dialog, types a title and saves.\<close>

lemma saving_app:
  obtains s x where "app_steps lower s" "mounted s = Some 0" "instances s = [RecordsState saving]"
    "links s = [(3, 0, 0), (4, 0, 1)]" "place s = records_place" "ready (session_world s)"
    "auth_actor (auth (session_world s)) = Some x"
    "auth_modules (auth (session_world s)) = context_modules records_context"
proof -
  obtain s x where s: "app_steps lower s" "mounted s = Some 0" "instances s = [RecordsState records_mount]"
    "links s = [(3, 0, 0)]" "place s = records_place" "next_call (session_world s) = 4"
    "ready (session_world s)" "auth_actor (auth (session_world s)) = Some x"
    "auth_modules (auth (session_world s)) = context_modules records_context"
    "auth_grants (auth (session_world s)) = {lit ''records.create''}"
    by (rule records_app)
  let ?o = "openCreate records_mount" and ?d = "draft_open ''a'' records_mount"
  let ?s1 = "s\<lparr>instances := [RecordsState ?o]\<rparr>" and ?s2 = "s\<lparr>instances := [RecordsState ?d]\<rparr>"
  have "records_user lower (auth (session_world s)) records_mount ?o"
    by (rule records_user.open_create)
      (simp_all add: page_active_def create_shown_def forbidden_def can_def s(10) records_eval)
  then have "app_steps lower (update_instance 0 (RecordsState ?o) s)"
    using records_event [OF s(1,2)] s(3) by simp
  then have 1: "app_steps lower ?s1"
    using update_instance_quiet [of ?o records_mount s 0] s(3) by (simp add: openCreate_def)
  have "records_user lower (auth (session_world ?s1)) ?o ?d"
    unfolding draft_open_def Let_def by (rule records_user.edit_title) (simp_all add: openCreate_def)
  then have "app_steps lower (update_instance 0 (RecordsState ?d) ?s1)"
    using records_event [OF 1] s(2) by simp
  then have 2: "app_steps lower ?s2"
    using update_instance_quiet [of ?d ?o ?s1 0] by (simp add: draft_open_def Let_def)
  have "records_user lower (auth (session_world ?s2)) ?d saving"
    unfolding saving_def by (rule records_user.submit) (simp_all add: records_eval)
  then have 3: "app_steps lower (update_instance 0 (RecordsState saving) ?s2)"
    using records_event [OF 2] s(2) by simp
  have c: "calls ?d = [(0, LoadCall)]"
    by (simp add: records_eval)
  show thesis
    by (rule that [OF 3])
      (use s in \<open>simp_all add: update_instance_def issued_def c saving_calls transmit_def transmit_one_def ready_def\<close>)
qed

definition unknown_place :: location where
  "unknown_place = \<lparr>pathname = lit ''/x'', loc_search = [], loc_hash = []\<rparr>"

text \<open>While the save is in flight the user follows a link to nowhere, which leads back to the module:
  the view is left and a new one is mounted.\<close>

lemma departed_app:
  obtains s where "app_steps lower s" "mounted s = Some 1" "instances s ! 0 = RecordsState saving"
    "map_of (links s) 4 = Some (0, 1)"
proof -
  obtain s x where s: "app_steps lower s" "mounted s = Some 0" "instances s = [RecordsState saving]"
    "links s = [(3, 0, 0), (4, 0, 1)]" "place s = records_place" "ready (session_world s)"
    "auth_actor (auth (session_world s)) = Some x"
    "auth_modules (auth (session_world s)) = context_modules records_context"
    by (rule saving_app)
  let ?view = "render exact_matcher selectedAdminModules (auth (session_world s))"
  let ?s = "s\<lparr>place := unknown_place\<rparr>"
  note r = records_render [OF s(6-8)]
  have x: "?view unknown_place = Some (Redirect (lit ''/''))"
    using s(6-8) by (simp add: render_def SessionBoundary_def ready_def unknown_place_def AdminRoutes_def
        useAdminModules_def selectedAdminModules_def recordsModule_def resolveAdminModules_def hasDuplicateIDs_def
        resolve_one_def available_def permitted_def resolved_def exact_matcher_def records_context_def)
  have "follow 2 ?view unknown_place = Some (records_place, ShellScreen module_view.RecordsView)"
    using follow_redirect [of ?view unknown_place _ 1] follow_redirect [of ?view, OF r(2), of 0] follow_screen [of ?view, OF r(1), of 0] x
    by (simp add: r(3) numeral_2_eq_2)
  moreover have "view_kind ?s = Some module_view.RecordsView"
    by (simp add: view_kind_def s)
  ultimately have "show_route exact_matcher selectedAdminModules ?s =
      mount module_view.RecordsView ((unmount ?s)\<lparr>place := records_place\<rparr>)"
    using x by (simp add: show_route_def Let_def)
  then have e: "show_route exact_matcher selectedAdminModules ?s =
      mount module_view.RecordsView (s\<lparr>instances := [RecordsState saving], mounted := None, place := records_place\<rparr>)"
    using s(2,3) by (simp add: unmount_def)
  have "app_steps lower (show_route exact_matcher selectedAdminModules ?s)"
    using s(1) admin_stepI [OF admin_event.navigate] by (meson rtranclp.rtrancl_into_rtrancl)
  moreover have "calls records_mount = [(0, LoadCall)]"
    by (simp add: records_eval)
  ultimately show thesis
    using that [of "show_route exact_matcher selectedAdminModules ?s"] s(3,4)
    by (simp add: e mount_def transmit_def transmit_one_def)
qed

subsection \<open>What is on the screen\<close>

text \<open>
  C5.  The application is a refinement of the session store: the session part of every state it
  reaches is one the session store reaches on its own, so that everything shown about the store
  holds in the running application; and a module view is mounted exactly when the routes, rendered
  for the session and the location, show it.
\<close>

theorem application_refines_session:
  assumes "rtranclp (admin_step match selected lower) (admin_start match selected loc) s"
  shows "auth_reachable (session_world s) \<and>
    (\<forall>mv. render match selected (auth (session_world s)) (place s) = Some (ShellScreen mv) \<longleftrightarrow>
       (\<exists>n. mounted s = Some n \<and> kind (instances s ! n) = mv))"
  using reachable_inv [OF assms] core_invD(1) by (auto simp: routed_def view_kind_def)

theorem application_refines_session_witness:
  "\<exists>s. app_steps id s \<and> auth_reachable (session_world s) \<and>
     render exact_matcher selectedAdminModules (auth (session_world s)) (place s) = Some (ShellScreen module_view.RecordsView)"
proof -
  obtain s where s: "app_steps id s" "mounted s = Some 0" "instances s = [RecordsState records_mount]"
    by (rule records_app)
  show ?thesis
    using application_refines_session [OF s(1)] s by (intro exI [of _ s]) simp
qed

text \<open>
  C2.  A module view is on the screen only for a session that may see it, in every state the running
  application reaches: somebody is signed in, the view belongs to a compiled module for which the
  server sent a descriptor whose required permissions are granted, and every mutation that a mounted
  records view has in flight is one the session's grants allow now, at the moment it is in flight.
\<close>

theorem mounted_view_authorised:
  assumes "matcher_ok match" and "rtranclp (admin_step match selected lower) (admin_start match selected loc) s"
    and "mounted s = Some n"
  shows "authenticated (auth (session_world s)) \<and>
    (\<exists>m \<in> set selected. \<exists>d \<in> set (auth_modules (auth (session_world s))). mod_view m = kind (instances s ! n) \<and>
       mod_id m = desc_id d \<and>
       (case requiredPermissions d of None \<Rightarrow> True | Some ps \<Rightarrow> \<forall>p \<in> set ps. can (auth (session_world s)) p)) \<and>
    (\<forall>v k c. instances s ! n = RecordsState v \<and> (k, c) \<in> set (calls v) \<longrightarrow> allowed (auth (session_world s)) c)"
proof -
  note i = reachable_inv [OF assms(2)]
  note r = routed_mounted [OF i(2) assms(3)]
  have "state_ok (auth (session_world s)) (instances s ! n)"
    using core_invD(7) [OF i(1) assms(3) r(3)] .
  then have "allowed (auth (session_world s)) c" if "instances s ! n = RecordsState v" "(k, c) \<in> set (calls v)" for v k c
    using that by (auto simp: records_inv_def)
  then show ?thesis
    using render_shell [OF assms(1) r(1)] by blast
qed

theorem mounted_view_authorised_witness:
  "\<exists>s. app_steps id s \<and> mounted s = Some 0 \<and> authenticated (auth (session_world s)) \<and>
     (1, CreateCall \<lparr>input_title = lit ''a'', input_status = Draft\<rparr>) \<in> set (calls saving) \<and>
     can (auth (session_world s)) (lit ''records.create'')"
proof -
  obtain s where s: "app_steps id s" "mounted s = Some 0" "instances s = [RecordsState saving]"
    by (rule saving_app)
  have m: "(1, CreateCall \<lparr>input_title = lit ''a'', input_status = Draft\<rparr>) \<in> set (calls saving)"
    by (simp add: saving_calls)
  have "instances s ! 0 = RecordsState saving"
    by (simp add: s(3))
  with m have "allowed (auth (session_world s)) (CreateCall \<lparr>input_title = lit ''a'', input_status = Draft\<rparr>)"
      "authenticated (auth (session_world s))"
    using mounted_view_authorised [OF exact_matcher_ok s(1,2)] by blast+
  then show ?thesis
    using s m by (intro exI [of _ s]) simp
qed

subsection \<open>The requests of the views\<close>

lemma deliver_other:
  assumes "map_of (pending w) i = Some (CallOther p, rq)"
  shows "\<exists>w'. deliver i oc w = Some (w', Silent)"
  using assms by (simp add: deliver_def Let_def split: prod.split)

lemma linked_request:
  assumes "core_inv s" "map_of (links s) i = Some (n, k)" "(k, path, opts) \<in> set (requests_of (instances s ! n))"
  shows "\<exists>token. map_of (pending (session_world s)) i = Some (CallOther path, api_request token path opts)"
    "k \<in> fst ` set (requests_of (instances s ! n))"
proof -
  have l: "link_ok s (i, n, k)"
    using core_invD(2) [OF assms(1)] map_of_SomeD [OF assms(2)] by (auto simp: linked_def)
  then have "n < length (instances s)" by (simp add: link_ok_def)
  then show "\<exists>token. map_of (pending (session_world s)) i = Some (CallOther path, api_request token path opts)"
    using eq_key_imp_eq_value [OF core_invD(5) [OF assms(1) nth_mem] assms(3)] l by (fastforce simp: link_ok_def)
  show "k \<in> fst ` set (requests_of (instances s ! n))"
    using l by (rule link_ok_request)
qed

lemma request_linked:
  assumes "core_inv s" "n < length (instances s)" "(k, path, opts) \<in> set (requests_of (instances s ! n))"
  shows "\<exists>i token. map_of (links s) i = Some (n, k) \<and>
    map_of (pending (session_world s)) i = Some (CallOther path, api_request token path opts) \<and>
    (\<forall>oc. \<exists>w. deliver i oc (session_world s) = Some (w, Silent))"
proof -
  have "(n, k) \<in> snd ` set (links s)"
    using core_invD(3) [OF assms(1), unfolded all_linked_def, rule_format, OF assms(2,3)] by simp
  then obtain j where "(j, n, k) \<in> set (links s)" by auto
  then have "map_of (links s) j = Some (n, k)"
    using core_invD(2) [OF assms(1)] by (auto simp: linked_def intro: map_of_is_SomeI)
  then show ?thesis
    using linked_request(1) [OF assms(1) _ assms(3)] deliver_other by blast
qed

lemma key_present: "k \<in> fst ` set xs \<Longrightarrow> \<exists>v. map_of xs k = Some v"
  by (metis map_of_eq_None_iff option.exhaust)

lemma page_settle_failure:
  assumes "c \<in> fst ` set (in_flight v)" "\<And>path. api_result path oc = Inl e"
  shows "\<exists>v'. page_settle reader fallback c oc v = Some v'"
  using key_present [OF assms(1)] by (auto simp: page_settle_def assms(2) Let_def)

lemma settle_state_failure:
  assumes "k \<in> fst ` set (requests_of m)" "\<And>path. api_result path oc = Inl c"
  shows "\<exists>m'. settle_state k oc m = Some m'"
proof (cases m)
  case (RecordsState v)
  then have "k \<in> fst ` set (calls v)"
    using assms(1) by (simp add: image_image case_prod_beta)
  then obtain rc where "map_of (calls v) k = Some rc"
    using key_present [of k "calls v"] by auto
  then show ?thesis
    unfolding RecordsState
    by (cases rc) (simp_all add: view_settle_def records_settle_def assms(2) load_settled_def create_settled_def update_settled_def
        remove_settled_def)
qed (use assms(1) page_settle_failure [OF _ assms(2)] in
    \<open>simp_all add: image_image tasks_settle_def audit_settle_def\<close>)

lemma show_route_login:
  assumes "matcher_ok match" "ready (session_world s)" "\<not> authenticated (auth (session_world s))"
    and "encodeURIComponent (location_text (place s)) \<noteq> None"
  shows "mounted (show_route match selected s) = None"
    "render match selected (auth (session_world s)) (place (show_route match selected s)) = Some LoginScreen"
    "session_world (show_route match selected s) = session_world s"
proof -
  let ?view = "render match selected (auth (session_world s))"
  obtain loc' where f: "follow 2 ?view (place s) = Some (loc', LoginScreen)"
    using signed_out_follow [OF assms(1) _ _ assms(3,4)] assms(2) unfolding ready_def by blast
  have "?view (place s) \<noteq> Some (ShellScreen mv)" for mv
    using render_shell_ready(2) [of match selected "session_world s" "place s" "ShellScreen mv"] assms(3)
    by (auto simp: workspace_screen_def)
  then have "\<not> (view_kind s \<noteq> None \<and> ?view (place s) = map_option ShellScreen (view_kind s))"
    by (cases "view_kind s") simp_all
  then have e: "show_route match selected s = (unmount s)\<lparr>place := loc'\<rparr>"
    unfolding show_route_def Let_def f by (simp only: if_False) simp
  show "mounted (show_route match selected s) = None" "session_world (show_route match selected s) = session_world s"
    by (simp_all add: e)
  show "?view (place (show_route match selected s)) = Some LoginScreen"
    using follow_end [OF f] by (simp add: e)
qed

lemma deliver_expired:
  assumes "map_of (pending w) i = Some (CallOther p, rq)" "handler_on w" "p \<notin> set exempt_paths"
    and "\<not> nullish (payload_of body)"
  shows "deliver i (Response 401 body) w =
    Some (expire (w\<lparr>pending := filter (\<lambda>q. fst q \<noteq> i) (pending w)\<rparr>), Silent)"
  using assms by (simp add: deliver_def api_settle_not_ok expiry_handler_def run_handler_def Let_def)

text \<open>
  C3.  A session that the server no longer accepts ends at the login form, wherever the user is: when
  any request of the view on the screen is answered with status 401, the outcome is a step of the
  application after which no module view is mounted, nobody is signed in, the CSRF token is gone and
  the routes show the login form.
\<close>

theorem view_401_returns_to_login:
  assumes "matcher_ok match" and "rtranclp (admin_step match selected lower) (admin_start match selected loc) s"
    and "mounted s = Some n" and "map_of (links s) i = Some (n, k)"
    and "(k, path, opts) \<in> set (requests_of (instances s ! n))" and "path \<notin> set exempt_paths"
    and "\<not> nullish (payload_of body)" and "encodeURIComponent (location_text (place s)) \<noteq> None"
  shows "\<exists>w s'. deliver i (Response 401 body) (session_world s) = Some (w, Silent) \<and>
    settle_link i (Response 401 body) (s\<lparr>session_world := w\<rparr>) = Some s' \<and>
    (let s'' = show_route match selected (after_signal Silent s')
     in admin_step match selected lower s s'' \<and> mounted s'' = None \<and> \<not> authenticated (auth (session_world s'')) \<and>
        csrfToken (session_world s'') = [] \<and>
        render match selected (auth (session_world s'')) (place s'') = Some LoginScreen)"
proof -
  note inv = reachable_inv [OF assms(2)]
  note r = routed_mounted [OF inv(2) assms(3)]
  note l = linked_request [OF inv(1) assms(4,5)]
  then obtain token where p: "map_of (pending (session_world s)) i = Some (CallOther path, api_request token path opts)"
    by blast
  define w where "w = expire ((session_world s)\<lparr>pending := filter (\<lambda>q. fst q \<noteq> i) (pending (session_world s))\<rparr>)"
  have d: "deliver i (Response 401 body) (session_world s) = Some (w, Silent)"
    unfolding w_def using deliver_expired [OF p auth_reachable_handler [OF core_invD(1) [OF inv(1)]] assms(6,7)] .
  have e: "api_result q (Response 401 body) = Inl (failure_of 401 (payload_of body))" for q
    by (simp add: api_result_def api_settle_not_ok)
  obtain m where m: "settle_state k (Response 401 body) (with_toasts (notices s) (instances s ! n)) = Some m"
    using settle_state_failure [OF _ e, of k "with_toasts (notices s) (instances s ! n)"] l(2)
    unfolding requests_of_frame by blast
  define s' where "s' = s\<lparr>session_world := w, instances := (instances s)[n := m], notices := toasts_after (notices s) m,
    links := filter (\<lambda>x. fst x \<noteq> i) (links s)\<rparr>"
  have s: "settle_link i (Response 401 body) (s\<lparr>session_world := w\<rparr>) = Some s'"
    by (simp add: settle_link_def assms(4) m s'_def)
  let ?t = "after_signal Silent s'"
  have "session_world ?t = w" "place ?t = place s"
    by (simp_all add: after_signal_def shell_logout_settled_def submit_settled_def s'_def)
  moreover have "ready w" "\<not> authenticated (auth w)" "csrfToken w = []"
    using r(2) by (simp_all add: w_def expire_def ready_def authenticated_def)
  ultimately show ?thesis
    using show_route_login [OF assms(1), of ?t selected] assms(8) d s admin_step_outcome [OF d s, of match selected lower]
    by (intro exI [of _ w] exI [of _ s']) (simp add: Let_def)
qed

theorem view_401_returns_to_login_witness:
  "\<exists>s w s'. app_steps id s \<and> mounted s = Some 0 \<and>
     deliver 3 (Response 401 None) (session_world s) = Some (w, Silent) \<and>
     settle_link 3 (Response 401 None) (s\<lparr>session_world := w\<rparr>) = Some s' \<and>
     mounted (show_route exact_matcher selectedAdminModules (after_signal Silent s')) = None"
proof -
  obtain s where s: "app_steps id s" "mounted s = Some 0" "instances s = [RecordsState records_mount]"
      "links s = [(3, 0, 0)]" "place s = records_place"
    by (rule records_app)
  have q: "(0, lit ''/api/records'', no_options) \<in> set (requests_of (instances s ! 0))"
    by (simp add: s(3) records_eval)
  have "location_text records_place = lit ''/records''"
    by (simp add: location_text_def records_place_def)
  then have "encodeURIComponent (location_text (place s)) \<noteq> None"
    using encodeURIComponent_defined [of "lit ''/records''"] s(5) by (simp add: well_formed_lit)
  moreover have "\<not> nullish (payload_of None)" "lit ''/api/records'' \<notin> set exempt_paths"
    by (simp_all add: payload_of_def empty_object_def exempt_paths_def)
  moreover have "map_of (links s) 3 = Some (0, 0)"
    by (simp add: s(4))
  ultimately obtain w s' where "deliver 3 (Response 401 None) (session_world s) = Some (w, Silent)"
      "settle_link 3 (Response 401 None) (s\<lparr>session_world := w\<rparr>) = Some s'"
      "mounted (show_route exact_matcher selectedAdminModules (after_signal Silent s')) = None"
    using view_401_returns_to_login [OF exact_matcher_ok s(1,2) _ q] unfolding Let_def by blast
  with s(1,2) show ?thesis by blast
qed

subsection \<open>Views that have been left\<close>

lemma mount_notices [simp]: "notices (mount mv s) = notices s"
  by (simp add: mount_def Let_def)

lemma show_route_notices [simp]: "notices (show_route match selected s) = notices s"
  by (simp add: show_route_def Let_def split: option.split prod.split screen.split)

lemma show_route_kept:
  assumes "core_inv s" "mounted (show_route match selected s) = Some n" "mounted s = Some n"
  shows "show_route match selected s = s"
proof -
  have n: "n < length (instances s)"
    using core_invD(6) [OF assms(1,3)] .
  have l: "length (instances (unmount s)) = length (instances s)"
    by (simp add: unmount_def split: option.split)
  have "mounted (mount mv ((unmount s)\<lparr>place := p\<rparr>)) = Some (length (instances s))" for mv p
    by (simp add: mount_def Let_def l)
  then show ?thesis
    using assms(2) n unfolding show_route_def Let_def
    by (auto split: if_splits option.splits prod.splits screen.splits)
qed

text \<open>
  C20.  Leaving the records view does not silence a save: when a mutation of a view that is no longer
  mounted settles, exactly one notification is shown, in the error tone when it failed, and the view
  that is on the screen, if it stays, is not touched, another records view included.
\<close>

theorem departed_mutation_notifies:
  assumes "rtranclp (admin_step match selected lower) (admin_start match selected loc) s"
    and "map_of (links s) i = Some (n, k)" and "mounted s \<noteq> Some n"
    and "instances s ! n = RecordsState v" and "map_of (calls v) k = Some c" and "\<not> is_load c"
    and "deliver i oc (session_world s) = Some (w, sig)"
    and "settle_link i oc (s\<lparr>session_world := w\<rparr>) = Some s'"
    and "s'' = show_route match selected (after_signal sig s')"
  shows "(\<exists>m. notices s'' = show_toast m (case api_result (rec_path c) oc of Inr v \<Rightarrow> None | Inl e \<Rightarrow> Some ErrorTone) (notices s)) \<and>
    (\<forall>n'. mounted s = Some n' \<and> mounted s'' = Some n' \<longrightarrow> instances s'' ! n' = instances s ! n')"
proof -
  note inv = reachable_inv [OF assms(1)]
  have "link_ok s (i, n, k)"
    using core_invD(2) [OF inv(1)] map_of_SomeD [OF assms(2)] by (auto simp: linked_def)
  then obtain p rq where "map_of (pending (session_world s)) i = Some (CallOther p, rq)"
    by (auto simp: link_ok_def)
  from deliver_other [OF this, of oc] have sig: "sig = Silent"
    using assms(7) by auto
  obtain v' where v': "view_settle k oc (v\<lparr>toasts := notices s\<rparr>) = Some v'"
      "s' = s\<lparr>session_world := w, instances := (instances s)[n := RecordsState v'], notices := toasts v',
        links := filter (\<lambda>l. fst l \<noteq> i) (links s)\<rparr>"
    using assms(8) by (auto simp: settle_link_def assms(2,4))
  have s: "after_signal sig s' = s'"
    by (simp add: sig after_signal_def shell_logout_settled_def submit_settled_def)
  obtain m where "toasts v' = show_toast m (case api_result (rec_path c) oc of Inr v \<Rightarrow> None | Inl e \<Rightarrow> Some ErrorTone) (notices s)"
    using mutation_feedback [OF v'(1) _ assms(6)] assms(5) by auto
  then have "notices s'' = show_toast m (case api_result (rec_path c) oc of Inr v \<Rightarrow> None | Inl e \<Rightarrow> Some ErrorTone) (notices s)"
    by (simp add: assms(9) s) (simp add: v'(2))
  moreover have "instances s'' ! n' = instances s ! n'" if "mounted s = Some n'" "mounted s'' = Some n'" for n'
  proof -
    have "core_inv s'"
      using outcome_core [OF inv assms(7,8)] .
    moreover have "mounted s' = mounted s"
      by (simp add: v'(2))
    ultimately have "s'' = s'"
      using show_route_kept that unfolding assms(9) s by metis
    then show ?thesis
      using that(1) assms(3) by (auto simp: v'(2) nth_list_update)
  qed
  ultimately show ?thesis by blast
qed

theorem departed_mutation_notifies_witness:
  "\<exists>s w s' m. app_steps id s \<and> mounted s = Some 1 \<and>
     deliver 4 (FetchRejected OtherCause) (session_world s) = Some (w, Silent) \<and>
     settle_link 4 (FetchRejected OtherCause) (s\<lparr>session_world := w\<rparr>) = Some s' \<and>
     notices (show_route exact_matcher selectedAdminModules (after_signal Silent s')) =
       show_toast m (Some ErrorTone) (notices s)"
proof -
  let ?c = "CreateCall \<lparr>input_title = lit ''a'', input_status = Draft\<rparr>" and ?oc = "FetchRejected OtherCause"
  obtain s where s: "app_steps id s" "mounted s = Some 1" "instances s ! 0 = RecordsState saving"
      "map_of (links s) 4 = Some (0, 1)"
    by (rule departed_app)
  have o: "api_result p ?oc = Inl OtherCause" for p
    by (simp add: api_result_def)
  have "link_ok s (4, 0, 1)"
    using core_invD(2) [OF reachable_inv(1) [OF s(1)]] map_of_SomeD [OF s(4)] by (auto simp: linked_def)
  then obtain p rq where "map_of (pending (session_world s)) 4 = Some (CallOther p, rq)"
    by (auto simp: link_ok_def)
  then obtain w where w: "deliver 4 ?oc (session_world s) = Some (w, Silent)"
    using deliver_other by blast
  obtain s' where s': "settle_link 4 ?oc (s\<lparr>session_world := w\<rparr>) = Some s'"
    using s(3,4) by (simp add: settle_link_def view_settle_def records_settle_def saving_calls create_settled_def o)
  have "\<exists>m. notices (show_route exact_matcher selectedAdminModules (after_signal Silent s')) =
      show_toast m (Some ErrorTone) (notices s)"
    using departed_mutation_notifies [OF s(1,4) _ s(3) _ _ w s' refl, of ?c] s(2) by (simp add: saving_calls o)
  then show ?thesis
    using s(1,2) w s' by blast
qed

end
