(* ===== verification/Shell_System.thy ===== *)
theory Shell_System
  imports System_Properties
begin

section \<open>The shell in the running application\<close>

text \<open>
  The route element \<open>AppShell\<close> frames the index and the module routes.  It stays mounted from one
  module to the next and is unmounted by every render whose route is not below it: the login form,
  the error panel, and the redirects of the catch-all and the login route.  The page has the
  application, the shell if it is mounted, and the style \<open>overflow\<close> that the body has without one.
  How wide the window is when a shell is mounted is left open.
\<close>

definition shell_shown :: "matcher \<Rightarrow> admin_module list \<Rightarrow> auth_state \<Rightarrow> location \<Rightarrow> bool" where
  "shell_shown match selected a loc \<longleftrightarrow>
     initialized a \<and> initializationError a = [] \<and> authenticated a \<and>
     (case match (useAdminModules selected a) (pathname loc) of
        IndexTarget \<Rightarrow> True
      | ModuleTarget m \<Rightarrow> True
      | _ \<Rightarrow> False)"

text \<open>One render mounts the shell, keeps it or unmounts it; redirects are renders in a row.\<close>

definition place_shell :: "bool \<Rightarrow> bool \<Rightarrow> shell option \<times> jstr \<Rightarrow> shell option \<times> jstr" where
  "place_shell small here x =
     (case x of
        (None, overflow) \<Rightarrow> (if here then Some (shell_mount small overflow) else None, overflow)
      | (Some sh, overflow) \<Rightarrow> if here then (Some sh, overflow) else (None, body_overflow (shell_unmount sh)))"

fun follow_shell ::
    "nat \<Rightarrow> (location \<Rightarrow> screen option) \<Rightarrow> (location \<Rightarrow> bool) \<Rightarrow> bool \<Rightarrow> location \<Rightarrow> shell option \<times> jstr \<Rightarrow> shell option \<times> jstr" where
  "follow_shell n view here small loc x =
     (let y = place_shell small (here loc) x
      in case view loc of
           Some (Redirect u) \<Rightarrow> (case n of 0 \<Rightarrow> y | Suc k \<Rightarrow> follow_shell k view here small (parse_location u) y)
         | _ \<Rightarrow> y)"

declare follow_shell.simps [simp del]

definition show_shell :: "matcher \<Rightarrow> admin_module list \<Rightarrow> bool \<Rightarrow> admin \<Rightarrow> shell option \<times> jstr \<Rightarrow> shell option \<times> jstr" where
  "show_shell match selected small s x =
     (let a = auth (session_world s); view = render match selected a
      in if follow 2 view (place s) = None then place_shell small False x
         else follow_shell 2 view (shell_shown match selected a) small (place s) x)"

record page =
  page_app :: admin
  page_shell :: "shell option"
  page_overflow :: jstr

definition page_render :: "matcher \<Rightarrow> admin_module list \<Rightarrow> bool \<Rightarrow> admin \<Rightarrow> page \<Rightarrow> page" where
  "page_render match selected small s p =
     (let x = show_shell match selected small s (page_shell p, page_overflow p)
      in p\<lparr>page_app := show_route match selected s, page_shell := fst x, page_overflow := snd x\<rparr>)"

definition admin_boot :: "location \<Rightarrow> admin" where
  "admin_boot loc =
     \<lparr>session_world = initialize world_init, place = loc, instances = [], mounted = None, links = [],
      notices = toast_init, login_origin = loc\<rparr>"

definition page_start :: "matcher \<Rightarrow> admin_module list \<Rightarrow> location \<Rightarrow> jstr \<Rightarrow> page" where
  "page_start match selected loc original =
     page_render match selected False (admin_boot loc)
       \<lparr>page_app = admin_boot loc, page_shell = None, page_overflow = original\<rparr>"

inductive app_step :: "matcher \<Rightarrow> admin_module list \<Rightarrow> (jstr \<Rightarrow> jstr) \<Rightarrow> page \<Rightarrow> page \<Rightarrow> bool"
  for match selected lower where
  app: "admin_event match selected lower (page_app p) s \<Longrightarrow>
    app_step match selected lower p (page_render match selected small s p)"
| shell: "page_shell p = Some sh \<Longrightarrow> shell_step sh sh' \<Longrightarrow> app_step match selected lower p (p\<lparr>page_shell := Some sh'\<rparr>)"

definition body_style :: "page \<Rightarrow> jstr" where
  "body_style p = (case page_shell p of None \<Rightarrow> page_overflow p | Some sh \<Rightarrow> body_overflow sh)"

subsection \<open>The shell is mounted with its screens\<close>

lemma shell_shown_screen:
  assumes "render match selected a loc = Some scr" "\<And>u. scr \<noteq> Redirect u"
  shows "shell_shown match selected a loc \<longleftrightarrow> workspace_screen scr"
  using assms
  by (auto simp: shell_shown_def render_def SessionBoundary_def AdminRoutes_def RequireAuth_def LoginRoute_def
      index_element_def workspace_screen_def split: if_splits target.splits list.splits)

definition shell_ok :: "jstr \<Rightarrow> shell option \<times> jstr \<Rightarrow> bool" where
  "shell_ok original x \<longleftrightarrow> snd x = original \<and> (case fst x of None \<Rightarrow> True | Some sh \<Rightarrow> lock_inv original sh)"

lemma unmount_overflow: "lock_inv original sh \<Longrightarrow> body_overflow (shell_unmount sh) = original"
  by (auto simp: shell_unmount_def viewport_cleanup_def lock_cleanup_def lock_inv_def locked_def split: if_splits)

lemma place_shell_ok: "shell_ok original x \<Longrightarrow> shell_ok original (place_shell small here x)"
  by (cases x; cases "fst x") (auto simp: shell_ok_def place_shell_def lock_inv_mount unmount_overflow)

lemma place_shell_here: "fst (place_shell small here x) = None \<longleftrightarrow> \<not> here"
  by (cases x; cases "fst x") (simp_all add: place_shell_def)

lemma follow_shell_ok: "shell_ok original x \<Longrightarrow> shell_ok original (follow_shell n view here small loc x)"
proof (induction n arbitrary: loc x)
  case 0
  then show ?case
    by (subst follow_shell.simps) (simp add: Let_def place_shell_ok split: option.split screen.split)
next
  case (Suc n)
  then show ?case
    by (subst follow_shell.simps) (simp add: Let_def place_shell_ok split: option.split screen.split)
qed

lemma follow_shell_here:
  assumes "follow n view loc = Some (loc', scr)"
  shows "fst (follow_shell n view here small loc x) = None \<longleftrightarrow> \<not> here loc'"
  using assms
proof (induction n arbitrary: loc x)
  case 0
  then show ?case
    by (subst follow_shell.simps, subst (asm) follow.simps)
      (auto simp: Let_def place_shell_here split: option.splits screen.splits)
next
  case (Suc n)
  then show ?case
    by (subst follow_shell.simps, subst (asm) (2) follow.simps)
      (auto simp: Let_def place_shell_here split: option.splits screen.splits)
qed

lemma show_shell_ok: "shell_ok original x \<Longrightarrow> shell_ok original (show_shell match selected small s x)"
  by (simp add: show_shell_def Let_def place_shell_ok follow_shell_ok)

lemma show_route_place:
  "place (show_route match selected s) =
     (case follow 2 (render match selected (auth (session_world s))) (place s) of None \<Rightarrow> place s | Some (loc, scr) \<Rightarrow> loc)"
proof (cases "view_kind s \<noteq> None \<and> render match selected (auth (session_world s)) (place s) = map_option ShellScreen (view_kind s)")
  case True
  then obtain mv where "render match selected (auth (session_world s)) (place s) = Some (ShellScreen mv)"
    by auto
  then have "follow 2 (render match selected (auth (session_world s))) (place s) = Some (place s, ShellScreen mv)"
    by (intro follow_screen) simp_all
  then show ?thesis
    using True by (simp add: show_route_def)
next
  case False
  then show ?thesis
    unfolding show_route_def Let_def
    by (simp only: if_False) (simp add: mount_def Let_def split: option.split prod.split screen.split)
qed

definition shell_placed :: "matcher \<Rightarrow> admin_module list \<Rightarrow> admin \<Rightarrow> shell option \<Rightarrow> bool" where
  "shell_placed match selected s x \<longleftrightarrow>
     (x \<noteq> None \<longleftrightarrow> (\<exists>scr. render match selected (auth (session_world s)) (place s) = Some scr \<and> workspace_screen scr))"

lemma show_shell_placed:
  assumes "core_inv s"
  shows "shell_placed match selected (show_route match selected s) (fst (show_shell match selected small s x))"
proof -
  let ?view = "render match selected (auth (session_world s))"
  have a: "auth (session_world (show_route match selected s)) = auth (session_world s)"
    by (rule show_route_inv(3) [OF assms])
  show ?thesis
  proof (cases "follow 2 ?view (place s)")
    case None
    then have "\<not> (\<exists>scr. ?view (place s) = Some scr \<and> workspace_screen scr)"
      by (subst (asm) follow.simps) (auto simp: workspace_screen_def split: option.splits screen.splits)
    then show ?thesis
      using None place_shell_here [of small False x] by (simp add: shell_placed_def show_shell_def a show_route_place)
  next
    case (Some q)
    then have f: "follow 2 ?view (place s) = Some (fst q, snd q)" by simp
    have v: "?view (fst q) = Some (snd q)" "\<forall>u. snd q \<noteq> Redirect u"
      using follow_end [OF f] by simp_all
    have "shell_shown match selected (auth (session_world s)) (fst q) \<longleftrightarrow> workspace_screen (snd q)"
      using shell_shown_screen [OF v(1)] v(2) by blast
    then show ?thesis
      using follow_shell_here [OF f, of _ small x] v(1)
      by (simp add: shell_placed_def show_shell_def a show_route_place f Let_def split_beta)
  qed
qed

definition page_inv :: "matcher \<Rightarrow> admin_module list \<Rightarrow> jstr \<Rightarrow> page \<Rightarrow> bool" where
  "page_inv match selected original p \<longleftrightarrow>
     system_inv match selected (page_app p) \<and> shell_ok original (page_shell p, page_overflow p) \<and>
     shell_placed match selected (page_app p) (page_shell p)"

lemma page_render_inv:
  assumes "core_inv s" "shell_ok original (page_shell p, page_overflow p)"
  shows "page_inv match selected original (page_render match selected small s p)"
  using show_route_inv [OF assms(1)] show_shell_ok [OF assms(2)] show_shell_placed [OF assms(1)]
  by (simp add: page_inv_def page_render_def Let_def system_inv_def)

lemma app_step_inv:
  assumes "app_step match selected lower p p'" "page_inv match selected original p"
  shows "page_inv match selected original p'"
  using assms(1)
proof (cases rule: app_step.cases)
  case (app s small)
  then show ?thesis
    using assms(2) page_render_inv admin_event_core unfolding page_inv_def by blast
next
  case (shell sh sh')
  then show ?thesis
    using assms(2) lock_inv_step by (simp add: page_inv_def shell_ok_def shell_placed_def)
qed

lemma page_start_inv: "page_inv match selected original (page_start match selected loc original)"
  unfolding page_start_def
  by (rule page_render_inv)
    (simp_all add: core_inv_def linked_def all_linked_def auth_reachable.mounted admin_boot_def shell_ok_def)

interpretation pg: invariant_system "page_start match selected loc original" "app_step match selected lower"
    "page_inv match selected original"
  for match selected loc original lower
  by unfold_locales (rule page_start_inv, erule (1) app_step_inv)

subsection \<open>The page and the application\<close>

lemma page_start_app: "page_app (page_start match selected loc original) = admin_start match selected loc"
  by (simp add: page_start_def page_render_def admin_start_def admin_boot_def Let_def)

lemma app_step_simulates:
  "app_step match selected lower p p' \<Longrightarrow>
     page_app p' = page_app p \<or> admin_step match selected lower (page_app p) (page_app p')"
  by (induction rule: app_step.induct) (auto simp: page_render_def Let_def intro: admin_stepI)

lemma page_run_app:
  "rtranclp (app_step match selected lower) (page_start match selected loc original) p \<Longrightarrow>
     rtranclp (admin_step match selected lower) (admin_start match selected loc) (page_app p)"
proof (induction rule: rtranclp_induct)
  case base
  then show ?case by (simp add: page_start_app)
next
  case (step p p')
  then show ?case using app_step_simulates [OF step(2)] by (auto intro: rtranclp.rtrancl_into_rtrancl)
qed

lemma app_run_page:
  "rtranclp (admin_step match selected lower) (admin_start match selected loc) s \<Longrightarrow>
     \<exists>p. rtranclp (app_step match selected lower) (page_start match selected loc original) p \<and> page_app p = s"
proof (induction rule: rtranclp_induct)
  case base
  then show ?case using page_start_app by blast
next
  case (step s s')
  then obtain p t where p: "rtranclp (app_step match selected lower) (page_start match selected loc original) p"
      "page_app p = s" "admin_event match selected lower s t" "s' = show_route match selected t"
    by (auto simp: admin_step_def)
  then have "app_step match selected lower p (page_render match selected True t p)"
    by (simp add: app_step.app)
  moreover have "page_app (page_render match selected True t p) = s'"
    by (simp add: page_render_def p(4) Let_def)
  ultimately show ?case
    using p(1) by (blast intro: rtranclp.rtrancl_into_rtrancl)
qed

text \<open>
  C18.  The page can always be scrolled again: whatever happens to the session, the location, the
  window and the navigation overlay, and in whatever order, the shell is mounted exactly while the
  routes show the workspace, and the body has the style \<open>hidden\<close> exactly while a mounted shell has its
  overlay open on a small screen, and otherwise the style it had before the application started; on
  the login form, after an expiry or a sign-out with the overlay open, it has that style.
\<close>

theorem page_scrolls_again:
  assumes "rtranclp (app_step match selected lower) (page_start match selected loc original) p"
  shows "(page_shell p \<noteq> None \<longleftrightarrow>
       (\<exists>scr. render match selected (auth (session_world (page_app p))) (place (page_app p)) = Some scr \<and> workspace_screen scr)) \<and>
    body_style p = (if \<exists>sh. page_shell p = Some sh \<and> locked sh then lit ''hidden'' else original) \<and>
    (render match selected (auth (session_world (page_app p))) (place (page_app p)) = Some LoginScreen \<longrightarrow>
       body_style p = original)"
  using pg.reach_inv [OF assms]
  by (auto simp: page_inv_def shell_placed_def shell_ok_def body_style_def lock_inv_def workspace_screen_def)

theorem page_scrolls_again_witness:
  "\<exists>p sh. page_shell p = Some sh \<and> locked sh \<and> body_style p = lit ''hidden'' \<and>
     rtranclp (app_step exact_matcher selectedAdminModules id) (page_start exact_matcher selectedAdminModules records_place []) p"
proof -
  let ?step = "app_step exact_matcher selectedAdminModules id"
  let ?start = "page_start exact_matcher selectedAdminModules records_place []"
  obtain s where s: "app_steps id s" "mounted s = Some 0"
    by (rule records_app)
  obtain p where p: "rtranclp ?step ?start p" "page_app p = s"
    using app_run_page [OF s(1)] by blast
  have "routed exact_matcher selectedAdminModules s"
    using reachable_inv(2) [OF s(1)] .
  then have "page_shell p \<noteq> None"
    using page_scrolls_again [OF p(1)] routed_mounted(1) [OF _ s(2)] p(2) by (auto simp: workspace_screen_def)
  then obtain sh where sh: "page_shell p = Some sh" by blast
  let ?p1 = "p\<lparr>page_shell := Some (sync True sh)\<rparr>"
  let ?sh = "if locked (sync True sh) then sync True sh else open_menu (sync True sh)"
  let ?p2 = "p\<lparr>page_shell := Some ?sh\<rparr>"
  have "?step p ?p1"
    by (rule app_step.shell [OF sh shell_step.viewport])
  then have 1: "rtranclp ?step ?start ?p1"
    using p(1) by (rule rtranclp.rtrancl_into_rtrancl [rotated])
  have 2: "rtranclp ?step ?start ?p2"
  proof (cases "locked (sync True sh)")
    case False
    then have "?step ?p1 (?p1\<lparr>page_shell := Some (open_menu (sync True sh))\<rparr>)"
      by (intro app_step.shell [OF _ shell_step.menu]) simp_all
    then show ?thesis
      using 1 False by (simp add: rtranclp.rtrancl_into_rtrancl)
  qed (use 1 in simp)
  have "locked ?sh"
    by (simp add: locked_def open_menu_def sync_def sync_state_def)
  then have "body_style ?p2 = lit ''hidden''"
    using page_scrolls_again [OF 2] by simp
  then show ?thesis
    using 2 \<open>locked ?sh\<close> by (intro exI [of _ ?p2] exI [of _ ?sh]) simp
qed

end
