(* ===== verification/System_Liveness.thy ===== *)
theory System_Liveness
  imports System_Properties
begin

section \<open>Loading ends\<close>

text \<open>
  A view that shows a spinner waits for something that can happen: a table view has its timer armed, or
  its current request is in flight in the API client; the records view has its load in flight.  The
  views' invariants say so for the views alone, the links of the application for the requests.
\<close>

fun is_loading :: "module_state \<Rightarrow> bool" where
  "is_loading (RecordsState v) = rec_loading v"
| "is_loading (TasksState v) = loading v"
| "is_loading (AuditState v) = loading v"

fun timer_armed :: "module_state \<Rightarrow> bool" where
  "timer_armed (RecordsState v) = False"
| "timer_armed (TasksState v) = (timer v \<noteq> None)"
| "timer_armed (AuditState v) = (timer v \<noteq> None)"

lemma fire_timer_sends:
  assumes "timer v \<noteq> None"
  shows "loading (fire_timer path v) \<and> timer (fire_timer path v) = None \<and> (\<exists>p. in_flight (fire_timer path v) = in_flight v @ [p])"
  using assms by (auto simp: fire_timer_def page_load_def split_beta)

text \<open>What the timer of a table view does when it fires.\<close>

fun fire_module :: "module_state \<Rightarrow> module_state" where
  "fire_module (RecordsState v) = RecordsState v"
| "fire_module (TasksState v) = TasksState (fire_timer tasks_path v)"
| "fire_module (AuditState v) = AuditState (fire_timer audit_path v)"

lemma timer_event:
  assumes "timer_armed m"
  shows "module_event lower a m (fire_module m)" "is_loading (fire_module m)" "\<not> timer_armed (fire_module m)"
    "\<exists>r. requests_of (fire_module m) = requests_of m @ [r]"
proof -
  have "module_event lower a m (fire_module m) \<and> is_loading (fire_module m) \<and> \<not> timer_armed (fire_module m) \<and>
      (\<exists>r. requests_of (fire_module m) = requests_of m @ [r])"
  proof (cases m)
    case (TasksState v)
    then have t: "timer v \<noteq> None" using assms by simp
    then obtain p where "loading (fire_timer tasks_path v)" "timer (fire_timer tasks_path v) = None"
        "in_flight (fire_timer tasks_path v) = in_flight v @ [p]"
      using fire_timer_sends [of v tasks_path] by auto
    then show ?thesis
      using TasksState t by (simp add: module_event.tasks tasks_user.timer del: split_paired_Ex)
  next
    case (AuditState v)
    then have t: "timer v \<noteq> None" using assms by simp
    then obtain p where "loading (fire_timer audit_path v)" "timer (fire_timer audit_path v) = None"
        "in_flight (fire_timer audit_path v) = in_flight v @ [p]"
      using fire_timer_sends [of v audit_path] by auto
    then show ?thesis
      using AuditState t by (simp add: module_event.audit audit_user.timer del: split_paired_Ex)
  qed (use assms in simp)
  then show "module_event lower a m (fire_module m)" "is_loading (fire_module m)" "\<not> timer_armed (fire_module m)"
    "\<exists>r. requests_of (fire_module m) = requests_of m @ [r]"
    by simp_all
qed

lemma paged_backed:
  assumes "paged_inv path v" "loading v" "timer v = None"
  obtains c where "is_current c (lease v)" "c \<in> fst ` set (in_flight v)"
proof -
  obtain c where c: "active (lease v) = Some c"
    using paged_invD(6) [OF assms(1,2)] assms(3) by blast
  then show thesis
    using that paged_invD(1,5) [OF assms(1)] is_current_iff_active by (metis fst_conv image_eqI)
qed

lemma records_backed:
  assumes "records_inv a v" "rec_loading v"
  obtains k where "(k, LoadCall) \<in> set (calls v)"
proof -
  have c: "calls_ok v (rec_busy v)"
    using assms(1) by (simp add: records_inv_def)
  then obtain k where "loadPromise v = Some k"
    using assms(2) by (auto simp: calls_ok_def)
  then have "(k, LoadCall) \<in> set (filter (\<lambda>p. is_load (snd p)) (calls v))"
    using c by (simp add: calls_ok_def)
  then show thesis using that by simp
qed

lemma records_load_ends:
  assumes "distinct (map fst (calls v))" "(k, LoadCall) \<in> set (calls v)" "view_settle k oc v = Some v'"
  shows "\<not> rec_loading v'"
proof -
  obtain c u r where u: "records_settle k oc v = Some (c, u, r)" "v' = view_continuation c r u"
    using assms(3) by (auto simp: view_settle_def)
  have "c = LoadCall"
    using records_settle_call [OF u(1)] map_of_is_SomeI [OF assms(1,2)] by simp
  then show ?thesis
    using records_settle_frame(4) [OF u(1)] u(2) by simp
qed

lemma loading_backed:
  assumes "state_ok a m" "is_loading m" "\<not> timer_armed m"
  obtains k where "k \<in> fst ` set (requests_of m)"
    "\<And>oc t m'. settle_state k oc (with_toasts t m) = Some m' \<Longrightarrow> \<not> is_loading m'"
proof (cases m)
  case (RecordsState v)
  have i: "records_inv a v"
    using assms(1) RecordsState by simp
  obtain k where k: "(k, LoadCall) \<in> set (calls v)"
    using records_backed [OF i] assms(2) RecordsState by auto
  have d: "distinct (map fst (calls v))"
    using i by (simp add: records_inv_def calls_ok_def)
  show thesis
  proof (rule that)
    show "k \<in> fst ` set (requests_of m)"
      using k RecordsState by force
    show "\<not> is_loading m'" if "settle_state k oc (with_toasts t m) = Some m'" for oc t m'
      using that records_load_ends [of "v\<lparr>toasts := t\<rparr>" k oc] k d RecordsState by auto
  qed
next
  case (TasksState v)
  have "timer v = None"
    using assms(3) TasksState by (cases "timer v") simp_all
  then obtain c where c: "is_current c (lease v)" "c \<in> fst ` set (in_flight v)"
    by (rule paged_backed [of tasks_path v, rotated 2]) (use assms(1,2) TasksState in simp_all)
  show thesis
    by (rule that [of c]) (use c page_settle_current(1) [OF _ c(1)] TasksState in \<open>auto simp: image_image tasks_settle_def\<close>)
next
  case (AuditState v)
  have "timer v = None"
    using assms(3) AuditState by (cases "timer v") simp_all
  then obtain c where c: "is_current c (lease v)" "c \<in> fst ` set (in_flight v)"
    by (rule paged_backed [of audit_path v, rotated 2]) (use assms(1,2) AuditState in simp_all)
  show thesis
    by (rule that [of c]) (use c page_settle_current(1) [OF _ c(1)] AuditState in \<open>auto simp: image_image audit_settle_def\<close>)
qed

lemma settle_link_known:
  assumes "map_of (links s) i = Some (n, k)" "settle_link i oc (s\<lparr>session_world := w\<rparr>) = Some s'" "n < length (instances s)"
  obtains m where "settle_state k oc (with_toasts (notices s) (instances s ! n)) = Some m" "instances s' ! n = m"
  using assms by (auto simp: settle_link_def)

text \<open>The path of a request decides whether the expiry handler runs, not what the request gives.\<close>

lemma api_result_path: "api_result p oc = api_result q oc"
  by (auto simp: api_result_def api_settle_def split: fetch_outcome.splits cause.splits)

lemma failed_link_settles:
  assumes "map_of (links s) i = Some (n, k)" "k \<in> fst ` set (requests_of (instances s ! n))" "api_result path oc = Inl c"
  shows "settle_link i oc (s\<lparr>session_world := w\<rparr>) \<noteq> None"
proof -
  have "\<exists>m. settle_state k oc (with_toasts (notices s) (instances s ! n)) = Some m"
    by (rule settle_state_failure [where c = c]) (use assms(2,3) api_result_path [of _ oc path] in simp_all)
  then show ?thesis
    using assms(1) by (auto simp: settle_link_def)
qed

lemma current_request_ends:
  assumes "core_inv s" "routed match selected s" "mounted s = Some n" "is_loading (instances s ! n)" "\<not> timer_armed (instances s ! n)"
  shows "\<exists>i k path req. map_of (links s) i = Some (n, k) \<and>
       map_of (pending (session_world s)) i = Some (CallOther path, req) \<and>
       (\<forall>oc. \<exists>w. deliver i oc (session_world s) = Some (w, Silent) \<and>
          (\<forall>s'. settle_link i oc (s\<lparr>session_world := w\<rparr>) = Some s' \<longrightarrow> \<not> is_loading (instances s' ! n) \<and>
             admin_step match selected lower s (show_route match selected (after_signal Silent s'))) \<and>
          (\<forall>c. api_result path oc = Inl c \<longrightarrow> settle_link i oc (s\<lparr>session_world := w\<rparr>) \<noteq> None))"
proof -
  note r = routed_mounted [OF assms(2,3)]
  have n: "n < length (instances s)"
    using core_invD(6) [OF assms(1,3)] .
  obtain k where k: "k \<in> fst ` set (requests_of (instances s ! n))"
      "\<And>oc t m'. settle_state k oc (with_toasts t (instances s ! n)) = Some m' \<Longrightarrow> \<not> is_loading m'"
    by (rule loading_backed [OF core_invD(7) [OF assms(1,3) r(3)] assms(4,5)]) blast
  obtain path opts where q: "(k, path, opts) \<in> set (requests_of (instances s ! n))"
    using k(1) by auto
  obtain i token where i: "map_of (links s) i = Some (n, k)"
      "map_of (pending (session_world s)) i = Some (CallOther path, api_request token path opts)"
      "\<forall>oc. \<exists>w. deliver i oc (session_world s) = Some (w, Silent)"
    using request_linked [OF assms(1) n q] by blast
  have "\<not> is_loading (instances s' ! n)" if "settle_link i oc (s\<lparr>session_world := w\<rparr>) = Some s'" for oc w s'
    using settle_link_known [OF i(1) that n] k(2) by metis
  then have "\<exists>w. deliver i oc (session_world s) = Some (w, Silent) \<and>
      (\<forall>s'. settle_link i oc (s\<lparr>session_world := w\<rparr>) = Some s' \<longrightarrow> \<not> is_loading (instances s' ! n) \<and>
         admin_step match selected lower s (show_route match selected (after_signal Silent s'))) \<and>
      (\<forall>c. api_result path oc = Inl c \<longrightarrow> settle_link i oc (s\<lparr>session_world := w\<rparr>) \<noteq> None)" for oc
    using i(3) [rule_format, of oc] admin_step_outcome [of i oc s _ Silent _ match selected lower]
      failed_link_settles [OF i(1) k(1), of path oc] by (elim exE) auto
  then show ?thesis
    using i(1,2) by blast
qed

text \<open>
  C17.  Loading can always end.  While the view on the screen is loading, one of two things holds.  Its
  timer is armed, and the firing of that timer is a step after which the view has sent one request and
  has no timer any more.  Or a request of the view is in flight in the API client: whatever its outcome,
  the client can deliver it, when the view takes the outcome the view is not loading afterwards, and
  every outcome for which \<open>api\<close> rejects, an HTTP error as well as a failed connection, is one the view
  takes.
\<close>

theorem view_loading_ends:
  assumes "rtranclp (admin_step match selected lower) (admin_start match selected loc) s"
    and "mounted s = Some n" and "is_loading (instances s ! n)"
  shows "(timer_armed (instances s ! n) \<and> \<not> timer_armed (fire_module (instances s ! n)) \<and>
       (\<exists>r. requests_of (fire_module (instances s ! n)) = requests_of (instances s ! n) @ [r]) \<and>
       admin_step match selected lower s (update_instance n (fire_module (instances s ! n)) s)) \<or>
    (\<exists>i k path req. map_of (links s) i = Some (n, k) \<and>
       map_of (pending (session_world s)) i = Some (CallOther path, req) \<and>
       (\<forall>oc. \<exists>w. deliver i oc (session_world s) = Some (w, Silent) \<and>
          (\<forall>s'. settle_link i oc (s\<lparr>session_world := w\<rparr>) = Some s' \<longrightarrow> \<not> is_loading (instances s' ! n) \<and>
             admin_step match selected lower s (show_route match selected (after_signal Silent s'))) \<and>
          (\<forall>c. api_result path oc = Inl c \<longrightarrow> settle_link i oc (s\<lparr>session_world := w\<rparr>) \<noteq> None)))"
proof (cases "timer_armed (instances s ! n)")
  case True
  then show ?thesis
    using event_step [OF reachable_inv [OF assms(1)] assms(2)] timer_event [OF True] by blast
next
  case False
  then show ?thesis
    by (intro disjI2 current_request_ends [OF reachable_inv [OF assms(1)] assms(2,3)])
qed

text \<open>At work: the records view has just been opened and shows its spinner; the server answers with an
  internal error, and the spinner is gone.\<close>

theorem view_loading_ends_witness:
  "\<exists>s i k w s'. app_steps id s \<and> mounted s = Some 0 \<and> is_loading (instances s ! 0) \<and>
     map_of (links s) i = Some (0, k) \<and> deliver i (Response 500 None) (session_world s) = Some (w, Silent) \<and>
     settle_link i (Response 500 None) (s\<lparr>session_world := w\<rparr>) = Some s' \<and> \<not> is_loading (instances s' ! 0) \<and>
     admin_step exact_matcher selectedAdminModules id s
       (show_route exact_matcher selectedAdminModules (after_signal Silent s'))"
proof -
  obtain s where s: "app_steps id s" "mounted s = Some 0" "instances s = [RecordsState records_mount]"
    by (rule records_app)
  have l: "is_loading (instances s ! 0)" "\<not> timer_armed (instances s ! 0)"
    by (simp_all add: s(3) records_eval)
  have f: "\<exists>c. api_result path (Response 500 None) = Inl c" for path
    by (simp add: api_result_def api_settle_not_ok response_ok_def)
  from view_loading_ends [OF s(1,2) l(1)] l(2) obtain i k path req where i: "map_of (links s) i = Some (0, k)"
    "\<forall>oc. \<exists>w. deliver i oc (session_world s) = Some (w, Silent) \<and>
      (\<forall>s'. settle_link i oc (s\<lparr>session_world := w\<rparr>) = Some s' \<longrightarrow> \<not> is_loading (instances s' ! 0) \<and>
         admin_step exact_matcher selectedAdminModules id s (show_route exact_matcher selectedAdminModules (after_signal Silent s'))) \<and>
      (\<forall>c. api_result path oc = Inl c \<longrightarrow> settle_link i oc (s\<lparr>session_world := w\<rparr>) \<noteq> None)"
    by blast
  with s(1,2) l(1) f [of path] show ?thesis
    by blast
qed

end
