(* ===== verification/Dialog_Focus.thy ===== *)
theory Dialog_Focus
  imports Record_Dialogs
begin

section \<open>The records page with its dialogs: focus\<close>

text \<open>
  The records workspace and its two dialogs together, with the focus.  A control is on the page when
  the workspace renders it; it takes the focus when it is enabled and not behind an open modal
  dialog.  After a render, \<open>dialogs_commit\<close> first takes the focus off a control that was removed, then
  runs the clean-ups of a dialog that was closed and the effects of one that was opened.  Rows are
  keyed by the identifier of the record, so a button of a row keeps its identity.
\<close>

datatype control =
    CreateButton
  | EmptyCreateButton
  | SearchField
  | FilterTab "record_status option"
  | RefreshButton
  | RetryButton
  | TitleButton jstr
  | EditButton jstr
  | DeleteButton jstr
  | TitleField
  | EditorControl
  | DeleteCancel
  | DeleteControl
  | OtherControl nat \<comment> \<open>outside the workspace\<close>

definition in_row :: "(jstr \<Rightarrow> jstr) \<Rightarrow> records_view \<Rightarrow> jstr \<Rightarrow> bool" where
  "in_row lower w i \<longleftrightarrow>
     (case records_display lower w of RecordTable rs \<Rightarrow> i \<in> set (map rec_id rs) | _ \<Rightarrow> False)"

fun on_page :: "(jstr \<Rightarrow> jstr) \<Rightarrow> auth_state \<Rightarrow> records_view \<Rightarrow> control \<Rightarrow> bool" where
  "on_page lower a w CreateButton \<longleftrightarrow> \<not> forbidden w \<and> can a (lit ''records.create'')"
| "on_page lower a w EmptyCreateButton \<longleftrightarrow> records_display lower w = NoRecords \<and> can a (lit ''records.create'')"
| "on_page lower a w SearchField \<longleftrightarrow> \<not> forbidden w"
| "on_page lower a w (FilterTab f) \<longleftrightarrow> \<not> forbidden w \<and> f \<in> set status_filters"
| "on_page lower a w RefreshButton \<longleftrightarrow> \<not> forbidden w"
| "on_page lower a w RetryButton \<longleftrightarrow> retry_shown lower w"
| "on_page lower a w (TitleButton i) \<longleftrightarrow> in_row lower w i \<and> can a (lit ''records.update'')"
| "on_page lower a w (EditButton i) \<longleftrightarrow> in_row lower w i \<and> can a (lit ''records.update'')"
| "on_page lower a w (DeleteButton i) \<longleftrightarrow> in_row lower w i \<and> can a (lit ''records.delete'')"
| "on_page lower a w TitleField \<longleftrightarrow> editorOpen w"
| "on_page lower a w EditorControl \<longleftrightarrow> editorOpen w"
| "on_page lower a w DeleteCancel \<longleftrightarrow> deleting w \<noteq> None"
| "on_page lower a w DeleteControl \<longleftrightarrow> deleting w \<noteq> None"
| "on_page lower a w (OtherControl n) \<longleftrightarrow> True"

definition in_dialog :: "control \<Rightarrow> bool" where
  "in_dialog c \<longleftrightarrow> c \<in> {TitleField, EditorControl, DeleteCancel, DeleteControl}"

definition takes_focus :: "(jstr \<Rightarrow> jstr) \<Rightarrow> auth_state \<Rightarrow> records_view \<Rightarrow> control \<Rightarrow> bool" where
  "takes_focus lower a w c \<longleftrightarrow>
     on_page lower a w c \<and> (c = RefreshButton \<longrightarrow> \<not> rec_loading w) \<and> (page_active w \<or> in_dialog c)"

text \<open>The controls the model names are those of the markup.\<close>

lemma on_page_markup:
  "on_page lower a w CreateButton \<longleftrightarrow> create_button (RecordsWorkspace engine lower a w)"
  "on_page lower a w EmptyCreateButton \<longleftrightarrow> empty_create_button (RecordsWorkspace engine lower a w)"
  "on_page lower a w SearchField \<longleftrightarrow> toolbar (RecordsWorkspace engine lower a w)"
  "on_page lower a w (TitleButton i) \<longleftrightarrow>
     (\<exists>r \<in> set (panel_rows (RecordsWorkspace engine lower a w)). row_id r = i \<and> row_title_edits r)"
  "on_page lower a w (EditButton i) \<longleftrightarrow>
     (\<exists>r \<in> set (panel_rows (RecordsWorkspace engine lower a w)). row_id r = i \<and> row_edit r)"
  "on_page lower a w (DeleteButton i) \<longleftrightarrow>
     (\<exists>r \<in> set (panel_rows (RecordsWorkspace engine lower a w)). row_id r = i \<and> row_delete r)"
  "on_page lower a w TitleField \<longleftrightarrow> record_dialog (RecordsWorkspace engine lower a w) \<noteq> None"
  "on_page lower a w DeleteCancel \<longleftrightarrow> delete_dialog (RecordsWorkspace engine lower a w) \<noteq> None"
  by (auto simp: RecordsWorkspace_def in_row_def render_row_def split: records_panel.split)

definition drop_removed :: "('e \<Rightarrow> bool) \<Rightarrow> 'e document \<Rightarrow> 'e document" where
  "drop_removed present doc =
     doc\<lparr>active_element := (case active_element doc of Some e \<Rightarrow> if present e then Some e else None | None \<Rightarrow> None)\<rparr>"

definition dialogs_commit ::
    "(jstr \<Rightarrow> jstr) \<Rightarrow> auth_state \<Rightarrow> records_view \<Rightarrow> records_view \<Rightarrow> control document \<Rightarrow> control document" where
  "dialogs_commit lower a w w' doc =
     (let takes = takes_focus lower a w';
          d0 = drop_removed (on_page lower a w') doc;
          d1 = (if editorOpen w \<and> \<not> editorOpen w' then dialog_unmount 0 takes d0 else d0);
          d2 = (if deleting w \<noteq> None \<and> deleting w' = None then delete_unmount 1 takes d1 else d1);
          d3 = (if \<not> editorOpen w \<and> editorOpen w' then dialog_mount 0 TitleField d2 else d2)
      in if deleting w = None \<and> deleting w' \<noteq> None then delete_mount 1 DeleteCancel d3 else d3)"

inductive page_step ::
    "(jstr \<Rightarrow> jstr) \<Rightarrow> auth_state \<Rightarrow> records_view \<times> control document \<Rightarrow> records_view \<times> control document \<Rightarrow> bool"
  for lower a where
  event: "records_step lower a w w' \<Longrightarrow> page_step lower a (w, doc) (w', dialogs_commit lower a w w' doc)"
| focus: "takes_focus lower a w c \<Longrightarrow> page_step lower a (w, doc) (w, doc\<lparr>active_element := Some c\<rparr>)"
| blur: "page_step lower a (w, doc) (w, doc\<lparr>active_element := None\<rparr>)"

definition document_init :: "'e document" where
  "document_init = \<lparr>active_element = None, open_dialogs = [], returnFocus = []\<rparr>"

subsection \<open>One dialog at a time\<close>

text \<open>How a step changes the dialogs: it opens one, from a page without a dialog, or closes some, or
  leaves them alone.\<close>

definition dialog_change :: "records_view \<Rightarrow> records_view \<Rightarrow> bool" where
  "dialog_change w w' \<longleftrightarrow>
     (page_active w \<or> (editorOpen w' \<longrightarrow> editorOpen w) \<and> (deleting w' \<noteq> None \<longrightarrow> deleting w \<noteq> None)) \<and>
     \<not> (\<not> editorOpen w \<and> editorOpen w' \<and> deleting w' \<noteq> None) \<and>
     \<not> (deleting w = None \<and> deleting w' \<noteq> None \<and> editorOpen w')"

lemma records_user_dialogs: "records_user lower a w w' \<Longrightarrow> dialog_change w w'"
  by (induction rule: records_user.induct)
    (auto simp: dialog_change_def page_active_def openCreate_def openEdit_def records_load_def issue_def submit_record_def
      save_def records_update_def records_create_def remove_record_def records_remove_def Let_def split: option.split)

lemma view_settle_dialogs:
  assumes "view_settle i oc w = Some w'"
  shows "(editorOpen w' \<longrightarrow> editorOpen w) \<and> (deleting w' \<noteq> None \<longrightarrow> deleting w \<noteq> None)"
proof -
  obtain c u r where u: "records_settle i oc w = Some (c, u, r)" "w' = view_continuation c r u"
    using assms by (auto simp: view_settle_def)
  have "editorOpen u = editorOpen w" "deleting u = deleting w"
    using records_settle_frame(6) [OF u(1)] by (cases u, cases w, simp)+
  then show ?thesis
    unfolding u(2) by (cases c) (auto simp: save_settled_def removal_settled_def notify_def split: sum.split)
qed

lemma records_step_dialogs: "records_step lower a w w' \<Longrightarrow> dialog_change w w'"
  by (induction rule: records_step.induct)
    (auto simp: dialog_change_def dest: records_user_dialogs view_settle_dialogs)

subsection \<open>The focus while a dialog is open\<close>

text \<open>The invariant of the page: at most one dialog is open; while one is, the focus is inside it or
  nowhere; a focused control is on the page; and the element of an open dialog is an open modal
  dialog.\<close>

definition focus_inv :: "(jstr \<Rightarrow> jstr) \<Rightarrow> auth_state \<Rightarrow> records_view \<times> control document \<Rightarrow> bool" where
  "focus_inv lower a s \<longleftrightarrow>
     (case s of (w, doc) \<Rightarrow>
        \<not> (editorOpen w \<and> deleting w \<noteq> None) \<and>
        (editorOpen w \<longrightarrow> active_element doc \<in> {None, Some TitleField, Some EditorControl}) \<and>
        (deleting w \<noteq> None \<longrightarrow> active_element doc \<in> {None, Some DeleteCancel, Some DeleteControl}) \<and>
        (\<forall>c. active_element doc = Some c \<longrightarrow> on_page lower a w c) \<and>
        open_dialogs doc = (if editorOpen w then [0] else []) @ (if deleting w \<noteq> None then [1] else []))"

lemma takes_focus_dialog:
  assumes "takes_focus lower a w c" "\<not> (editorOpen w \<and> deleting w \<noteq> None)"
  shows "editorOpen w \<longrightarrow> c \<in> {TitleField, EditorControl}" "deleting w \<noteq> None \<longrightarrow> c \<in> {DeleteCancel, DeleteControl}"
  using assms by (auto simp: takes_focus_def in_dialog_def page_active_def)

lemma dialog_change_cases:
  assumes "dialog_change w w'" "\<not> (editorOpen w \<and> deleting w \<noteq> None)"
  obtains
    (open_editor) "page_active w" "editorOpen w'" "deleting w' = None"
      "dialogs_commit lower a w w' doc = dialog_mount 0 TitleField (drop_removed (on_page lower a w') doc)"
  | (open_delete) "page_active w" "\<not> editorOpen w'" "deleting w' \<noteq> None"
      "dialogs_commit lower a w w' doc = dialog_mount 1 DeleteCancel (drop_removed (on_page lower a w') doc)"
  | (close_editor) "editorOpen w" "deleting w = None" "page_active w'"
      "dialogs_commit lower a w w' doc = dialog_unmount 0 (takes_focus lower a w') (drop_removed (on_page lower a w') doc)"
  | (close_delete) "\<not> editorOpen w" "deleting w \<noteq> None" "page_active w'"
      "dialogs_commit lower a w w' doc = dialog_unmount 1 (takes_focus lower a w') (drop_removed (on_page lower a w') doc)"
  | (same) "editorOpen w' = editorOpen w" "(deleting w' = None) = (deleting w = None)"
      "dialogs_commit lower a w w' doc = drop_removed (on_page lower a w') doc"
  using assms unfolding dialog_change_def page_active_def
  by (cases "editorOpen w"; cases "editorOpen w'"; cases "deleting w = None"; cases "deleting w' = None")
    (simp_all add: dialogs_commit_def Let_def dialogs_same)

lemma drop_removed_simps [simp]:
  "open_dialogs (drop_removed p doc) = open_dialogs doc" "returnFocus (drop_removed p doc) = returnFocus doc"
  "active_element (drop_removed p doc) = (case active_element doc of Some e \<Rightarrow> if p e then Some e else None | None \<Rightarrow> None)"
  by (simp_all add: drop_removed_def)

lemma dialog_mount_simps [simp]:
  "active_element (dialog_mount d field doc) = Some field"
  "open_dialogs (dialog_mount d field doc) = (if d \<in> set (open_dialogs doc) then open_dialogs doc else open_dialogs doc @ [d])"
  "returnFocus (dialog_mount d field doc) = assoc_set d (active_element doc) (returnFocus doc)"
  by (simp_all add: dialog_mount_def Let_def)

lemma dialog_unmount_simps [simp]:
  "open_dialogs (dialog_unmount d takes doc) = filter (\<lambda>x. x \<noteq> d) (open_dialogs doc)"
  "returnFocus (dialog_unmount d takes doc) = returnFocus doc"
  "active_element (dialog_unmount d takes doc) =
     (case map_of (returnFocus doc) d of
        Some (Some e) \<Rightarrow> if takes e then Some e else active_element doc
      | _ \<Rightarrow> active_element doc)"
  by (simp_all add: dialog_unmount_def dialog_cleanup_def remove_dialog_def focus_element_def split: option.split)

lemma focus_inv_commit:
  assumes "focus_inv lower a (w, doc)" "dialog_change w w'"
  shows "focus_inv lower a (w', dialogs_commit lower a w w' doc)"
proof -
  have "\<not> (editorOpen w \<and> deleting w \<noteq> None)"
    using assms(1) by (simp add: focus_inv_def)
  with assms(2) show ?thesis
  proof (cases rule: dialog_change_cases [where lower = lower and a = a and doc = doc])
    case same
    then show ?thesis
      using assms(1) by (auto simp: focus_inv_def split: option.split)
  qed (use assms(1) in \<open>auto simp: focus_inv_def page_active_def takes_focus_def split: option.splits if_splits\<close>)
qed

lemma focus_inv_step: "page_step lower a s t \<Longrightarrow> focus_inv lower a s \<Longrightarrow> focus_inv lower a t"
proof (induction rule: page_step.induct)
  case (event w w' doc)
  then show ?case using focus_inv_commit records_step_dialogs by blast
next
  case (focus w c doc)
  then show ?case
    using takes_focus_dialog [OF focus(1)] by (auto simp: focus_inv_def takes_focus_def)
qed (simp add: focus_inv_def)

lemma focus_inv_init: "focus_inv lower a (records_mount, document_init)"
  by (simp add: focus_inv_def document_init_def records_mount_def load_effect_def records_load_def issue_def records_init_def
      records_store.extend_def)

interpretation fp: invariant_system "(records_mount, document_init)" "page_step lower a" "focus_inv lower a" for lower a
  by unfold_locales (rule focus_inv_init, erule (1) focus_inv_step)

subsection \<open>The focus after a dialog is closed\<close>

text \<open>What the effect of an open dialog remembered stays remembered until it is closed.\<close>

definition remembers :: "control option \<Rightarrow> records_view \<times> control document \<Rightarrow> bool" where
  "remembers t s \<longleftrightarrow>
     (case s of (w, doc) \<Rightarrow>
        (editorOpen w \<longrightarrow> map_of (returnFocus doc) 0 = Some t) \<and> (deleting w \<noteq> None \<longrightarrow> map_of (returnFocus doc) 1 = Some t))"

lemma remembers_step:
  assumes "page_step lower a s t" "focus_inv lower a s" "remembers c s" "\<not> page_active (fst s)"
  shows "remembers c t"
  using assms
proof (induction rule: page_step.induct)
  case (event w w' doc)
  have d: "\<not> (editorOpen w \<and> deleting w \<noteq> None)"
    using event(2) by (simp add: focus_inv_def)
  show ?case
    using records_step_dialogs [OF event(1)] d
  proof (cases rule: dialog_change_cases [where lower = lower and a = a and doc = doc])
    case same
    then show ?thesis using event(3) by (auto simp: remembers_def)
  qed (use event(4) in \<open>simp_all add: remembers_def page_active_def\<close>)
qed (simp_all add: remembers_def)

lemma remembers_run:
  assumes "rtranclp (\<lambda>s t. page_step lower a s t \<and> \<not> page_active (fst t)) s t" "focus_inv lower a s" "remembers c s"
    "\<not> page_active (fst s)"
  shows "focus_inv lower a t \<and> remembers c t \<and> \<not> page_active (fst t)"
  using assms by (induction rule: rtranclp_induct) (auto intro: focus_inv_step remembers_step)

lemma records_display_dialogs [simp]:
  "records_display lower (openCreate w) = records_display lower w"
  "records_display lower (openEdit r w) = records_display lower w"
  "records_display lower (w\<lparr>deleting := d\<rparr>) = records_display lower w"
  by (simp_all add: records_display_def visibleRecords_def forbidden_def openCreate_def openEdit_def)

lemma forbidden_dialogs [simp]:
  "forbidden (openCreate w) = forbidden w" "forbidden (openEdit r w) = forbidden w"
  "forbidden (w\<lparr>deleting := d\<rparr>) = forbidden w"
  by (simp_all add: forbidden_def openCreate_def openEdit_def)

lemma opened_dialogs [simp]:
  "editorOpen (openCreate w)" "editorOpen (openEdit r w)" "deleting (openCreate w) = deleting w"
  "deleting (openEdit r w) = deleting w"
  by (simp_all add: openCreate_def openEdit_def)

lemma on_page_opening:
  assumes "records_step lower a w w'" "page_active w" "\<not> page_active w'" "on_page lower a w c"
  shows "on_page lower a w' c"
  using assms(1)
proof (cases rule: records_step.cases)
  case user
  then show ?thesis
    using assms(2-4)
    by (cases rule: records_user.cases; cases c)
      (simp_all add: page_active_def in_row_def retry_shown_def records_load_def issue_def split: option.splits)
next
  case (settle i oc)
  then show ?thesis
    using view_settle_dialogs [OF settle] assms(2,3) by (simp add: page_active_def)
qed (use assms(2,3) in \<open>simp add: page_active_def\<close>)

text \<open>A dialog that opens remembers the element that had the focus, and keeps it until it closes.\<close>

lemma opening_remembers:
  assumes "focus_inv lower a (w, doc)" "page_step lower a (w, doc) (w1, doc1)" "page_active w" "\<not> page_active w1"
  shows "remembers (active_element doc) (w1, doc1)"
  using assms(2)
proof (cases rule: page_step.cases)
  case event
  have "active_element (drop_removed (on_page lower a w1) doc) = active_element doc"
    using assms(1) on_page_opening [OF event(2) assms(3,4)] by (auto simp: focus_inv_def split: option.split)
  note e = this
  have i: "\<not> (editorOpen w \<and> deleting w \<noteq> None)"
    using assms(1) by (simp add: focus_inv_def)
  show ?thesis
    using records_step_dialogs [OF event(2)] i
    by (cases rule: dialog_change_cases [where lower = lower and a = a and doc = doc])
      (use assms(3,4) e in \<open>auto simp: event(1) remembers_def page_active_def simp del: drop_removed_simps(3)\<close>)
qed (use assms(3,4) in auto)

lemma closing_focus:
  assumes "focus_inv lower a (w, doc)" "remembers t (w, doc)" "page_step lower a (w, doc) (w', doc')"
    and "\<not> page_active w" "page_active w'"
  shows "active_element doc' = (case t of Some c \<Rightarrow> if takes_focus lower a w' c then Some c else None | None \<Rightarrow> None)"
  using assms(3)
proof (cases rule: page_step.cases)
  case event
  have i: "\<not> (editorOpen w \<and> deleting w \<noteq> None)"
    using assms(1) by (simp add: focus_inv_def)
  have n: "active_element (drop_removed (on_page lower a w') doc) = None"
    using assms(1,4,5) by (auto simp: focus_inv_def page_active_def split: option.split)
  show ?thesis
    using records_step_dialogs [OF event(2)] i
  proof (cases rule: dialog_change_cases [where lower = lower and a = a and doc = doc])
    case close_editor
    then show ?thesis
      using assms(2) n by (simp add: event(1) remembers_def split: option.split)
  next
    case close_delete
    then show ?thesis
      using assms(2) n by (simp add: event(1) remembers_def split: option.split)
  qed (use assms(4,5) in \<open>auto simp: page_active_def\<close>)
qed (use assms(4,5) in auto)

text \<open>
  C19.  A dialog of the records page keeps the focus inside it and gives it back: when a dialog opens,
  then stays open through any events, answers and movements of the focus, the focus is never on a
  control behind it, and when it closes, for whatever reason, the focus is where it was when the
  dialog opened if that control is still there and enabled, and on no control otherwise.
\<close>

theorem dialog_focus_returns:
  assumes "rtranclp (page_step lower a) (records_mount, document_init) (w, doc)"
    and "page_step lower a (w, doc) (w1, doc1)" and "page_active w" and "\<not> page_active w1"
    and "rtranclp (\<lambda>s t. page_step lower a s t \<and> \<not> page_active (fst t)) (w1, doc1) (w2, doc2)"
    and "page_step lower a (w2, doc2) (w3, doc3)" and "page_active w3"
  shows "(\<forall>c. active_element doc2 = Some c \<longrightarrow> in_dialog c) \<and>
    active_element doc3 =
      (case active_element doc of Some c \<Rightarrow> if takes_focus lower a w3 c then Some c else None | None \<Rightarrow> None)"
proof -
  note i = fp.reach_inv [OF assms(1)]
  have s: "focus_inv lower a (w2, doc2)" "remembers (active_element doc) (w2, doc2)" "\<not> page_active w2"
    using remembers_run [OF assms(5) focus_inv_step [OF assms(2) i] opening_remembers [OF i assms(2-4)]] assms(4) by simp_all
  then have "in_dialog c" if "active_element doc2 = Some c" for c
    using that by (auto simp: focus_inv_def page_active_def in_dialog_def)
  then show ?thesis
    using closing_focus [OF s(1,2) assms(6) s(3) assms(7)] by blast
qed

theorem dialog_focus_returns_witness:
  "\<exists>w doc. rtranclp (page_step id sample_grants) (records_mount, document_init) (w, doc) \<and> page_active w \<and>
     active_element doc = Some CreateButton"
proof -
  let ?step = "page_step id sample_grants" and ?w1 = "openCreate records_mount"
  let ?d = "document_init\<lparr>active_element := Some CreateButton\<rparr>"
  have c: "can sample_grants (lit ''records.create'')"
    by (simp add: sample_grants_def can_def)
  have m: "page_active records_mount" "\<not> forbidden records_mount"
    by (simp_all add: page_active_def forbidden_def records_eval)
  have "?step (records_mount, document_init) (records_mount, ?d)"
    by (rule page_step.focus) (simp add: takes_focus_def m c)
  then have r: "rtranclp ?step (records_mount, document_init) (records_mount, ?d)" by blast
  define d1 where "d1 = dialogs_commit id sample_grants records_mount ?w1 ?d"
  have o: "?step (records_mount, ?d) (?w1, d1)"
    unfolding d1_def by (intro page_step.event records_step.user records_user.open_create) (simp_all add: create_shown_def m c)
  define w3 where "w3 = ?w1\<lparr>editorOpen := False\<rparr>"
  define d3 where "d3 = dialogs_commit id sample_grants ?w1 w3 d1"
  have "records_user id sample_grants ?w1 w3"
    unfolding w3_def using records_user.close_editor [of ?w1 id sample_grants] by simp
  then have x: "?step (?w1, d1) (w3, d3)"
    unfolding d3_def by (intro page_step.event records_step.user)
  have p: "page_active w3" "\<not> page_active ?w1"
    using m by (simp_all add: w3_def page_active_def)
  have "takes_focus id sample_grants w3 CreateButton"
    using m p by (simp add: takes_focus_def c w3_def forbidden_def openCreate_def)
  then have "active_element d3 = Some CreateButton"
    using dialog_focus_returns [OF r o m(1) p(2) rtranclp.rtrancl_refl x p(1)] by simp
  moreover have "rtranclp ?step (records_mount, document_init) (w3, d3)"
    using r o x by (meson rtranclp.rtrancl_into_rtrancl)
  ultimately show ?thesis
    using p(1) by blast
qed

text \<open>
  The second case does happen: a confirmed deletion removes the row whose button opened the dialog,
  so that the focus is on nothing afterwards and a keyboard user starts again at the top of the page.
\<close>

lemma deletion_loses_focus:
  assumes "view_settle i oc w = Some w'" and "map_of (calls w) i = Some (RemoveCall r)"
    and "api_result (rec_path (RemoveCall r)) oc = Inr v"
  shows "\<not> takes_focus lower a w' (DeleteButton (rec_id r))"
proof -
  have "rec_id r \<notin> rec_id ` set (record_items w')"
    using assms by (auto simp: view_settle_def records_settle_def remove_settled_def removal_settled_def notify_def)
  then have "\<not> in_row lower w' (rec_id r)"
    by (auto simp: in_row_def records_display_def visibleRecords_def Let_def split: records_panel.split)
  then show ?thesis
    by (simp add: takes_focus_def)
qed

end
