(* ===== verification/Strict_Mode.thy ===== *)
theory Strict_Mode
  imports Admin_System Dialog_Focus
begin

section \<open>Strict mode: \<open>main.tsx\<close>\<close>

text \<open>
  The entry point renders the application in \<open>StrictMode\<close>.  A development build then mounts every
  component twice: it runs the effects, the clean-ups and the effects again, on the same state.  For
  each component with effects, \<open>effects\<close> is what its effects do after the first render and \<open>cleanup\<close>
  what their clean-ups do.  The timer of a table view is an option, so that arming it twice does not
  show in the state; what the clean-up leaves is therefore stated as well.
\<close>

definition strict :: "('s \<Rightarrow> 's) \<Rightarrow> ('s \<Rightarrow> 's) \<Rightarrow> 's \<Rightarrow> 's" where
  "strict effects cleanup s = effects (cleanup (effects s))"

text \<open>The session store: effects of a child run before those of its parent, so \<open>SessionBoundary\<close> calls
  \<open>initialize\<close> before \<open>AuthProvider\<close> registers the expiry handler; only the latter has a clean-up.\<close>

definition world_unmounted :: world where
  "world_unmounted = world_init\<lparr>handler_on := False\<rparr>"

definition session_effects :: "world \<Rightarrow> world" where
  "session_effects w = setAuthenticationExpiredHandler True (initialize w)"

text \<open>The shell: the viewport is read again and the other effects find nothing to do, since their
  conditions do not hold after the first render.\<close>

definition shell_effects :: "bool \<Rightarrow> shell \<Rightarrow> shell" where
  "shell_effects matches s = viewport_effect matches (menu_effect (page_effect (lock_effect (close_focus_effect s))))"

definition tasks_first_render :: tasks_view where
  "tasks_first_render = tasks_mount\<lparr>timer := None\<rparr>"

definition audit_first_render :: audit_view where
  "audit_first_render = audit_mount\<lparr>timer := None\<rparr>"

lemma initialize_running: "init_run w = Some r \<Longrightarrow> initialize w = w"
  by (simp add: initialize_def)

lemma initialize_starts: "init_run (initialize w) \<noteq> None"
  by (auto simp: initialize_def Let_def split: option.splits prod.splits)

lemma session_strict: "strict session_effects auth_unmount w = session_effects w"
proof -
  obtain r where "init_run (initialize w) = Some r"
    using initialize_starts by blast
  then show ?thesis
    by (simp add: strict_def session_effects_def auth_unmount_def initialize_running)
qed

lemma records_load_twice: "load_effect (load_effect s) = load_effect s"
  by (simp add: load_effect_def records_load_def issue_def split: option.split)

lemma paged_strict: "strict arm_timer page_unmount v = arm_timer (cleanup_effect v)"
  by (simp add: strict_def page_unmount_cleanup arm_timer_def cleanup_effect_def)

lemma shell_idle:
  assumes "\<not> mobileOpen s" "pageFocusRequest s = 0" "menuFocusRequest s = 0"
  shows "shell_effects matches s = viewport_effect matches s"
  using assms by (simp add: shell_effects_def close_focus_effect_def lock_effect_def page_effect_def menu_effect_def)

lemma sync_idle:
  assumes "\<not> mobileOpen s" "saved_overflow s = None"
  shows "sync matches s = s\<lparr>mobileViewport := matches\<rparr>"
  using assms by (cases s; cases matches) (simp_all add: sync_def sync_state_def commit_def lock_cleanup_def lock_effect_def Let_def)

lemma shell_mount_first:
  "shell_mount matches overflow = (shell_first overflow)\<lparr>mobileViewport := matches, listeners := 1\<rparr>"
  by (simp add: shell_mount_def viewport_effect_def sync_idle shell_first_def)

lemma shell_unmount_first:
  "shell_unmount (shell_mount matches overflow) = (shell_first overflow)\<lparr>mobileViewport := matches\<rparr>"
  by (simp add: shell_mount_first shell_unmount_def viewport_cleanup_def lock_cleanup_def shell_first_def)

lemma shell_effects_first: "shell_effects matches (shell_first overflow) = shell_mount matches overflow"
  by (simp add: shell_idle shell_mount_def shell_first_def)

lemma shell_strict: "strict (shell_effects matches) shell_unmount (shell_first overflow) = shell_mount matches overflow"
proof -
  have "shell_effects matches ((shell_first overflow)\<lparr>mobileViewport := matches\<rparr>) = shell_mount matches overflow"
    by (simp add: shell_idle viewport_effect_def sync_idle shell_mount_first shell_first_def)
  then show ?thesis
    by (simp add: strict_def shell_effects_first shell_unmount_first)
qed

lemma first_renders:
  "arm_timer (cleanup_effect tasks_first_render) = tasks_mount" "arm_timer (cleanup_effect audit_first_render) = audit_mount"
  by (simp_all add: tasks_first_render_def tasks_mount_def audit_first_render_def audit_mount_def arm_timer_def
      cleanup_effect_def cancel_def lease_init_def)

text \<open>
  C22.  Mounting twice is harmless for the stores and the views: with their effects run, cleaned up and
  run again, the session store is in the state it has after one mount, with one run of initialization
  and one request each for metadata and session; so are the records view, with one load, the two
  table views, with one timer armed and no lease held, the notifications and the shell, with one
  listener to the viewport.  Between the two mounts nothing is left running: no timer is armed, no
  listener registered and no expiry handler set.
\<close>

theorem strict_mode_harmless:
  "strict session_effects auth_unmount world_unmounted = initialize world_init \<and>
   map snd (pending (strict session_effects auth_unmount world_unmounted)) =
     [(CallMeta, api_request [] (lit ''/api/meta'') no_options), (CallSession 1, api_request [] (lit ''/api/auth/session'') no_options)] \<and>
   strict load_effect id view = load_effect view \<and>
   strict arm_timer page_unmount tasks_first_render = tasks_mount \<and>
   strict arm_timer page_unmount audit_first_render = audit_mount \<and>
   strict id toast_unmount toast_init = toast_init \<and>
   strict (shell_effects matches) shell_unmount (shell_first overflow) = shell_mount matches overflow \<and>
   listeners (shell_mount matches overflow) = 1 \<and>
   timer (page_unmount (arm_timer tasks_first_render)) = None \<and>
   timer (page_unmount (arm_timer audit_first_render)) = None \<and>
   listeners (shell_unmount (shell_effects matches (shell_first overflow))) = 0 \<and>
   \<not> handler_on (auth_unmount (session_effects world_unmounted))"
proof -
  have s: "session_effects world_unmounted = initialize world_init"
    by (simp add: session_effects_def world_unmounted_def world_init_def initialize_def app_load_def app_init_def send_def Let_def)
  moreover have "map snd (pending (initialize world_init)) =
      [(CallMeta, api_request [] (lit ''/api/meta'') no_options), (CallSession 1, api_request [] (lit ''/api/auth/session'') no_options)]"
    by (simp add: world_init_def initialize_def app_load_def app_init_def send_def Let_def)
  ultimately show ?thesis
    by (simp add: session_strict paged_strict first_renders shell_strict shell_effects_first shell_unmount_first)
      (simp add: shell_mount_first shell_first_def page_unmount_cleanup cleanup_effect_def auth_unmount_def
        setAuthenticationExpiredHandler_def strict_def records_load_twice toast_unmount_def toast_init_def)
qed

text \<open>
  Not so for the dialogs: the clean-up between the two mounts cannot focus the control behind the modal
  dialog, so the second mount finds the focus inside the dialog and remembers that.  In a development
  build the focus is not given back.
\<close>

lemma strict_dialog_forgets_opener:
  assumes "active_element doc = Some opener" "\<not> takes opener"
  shows "map_of (returnFocus (strict (dialog_mount d field) (dialog_cleanup d takes) doc)) d = Some (Some field)"
    "\<not> present field \<Longrightarrow> \<not> takes' field \<Longrightarrow>
      active_element (dialog_unmount d takes' (drop_removed present (strict (dialog_mount d field) (dialog_cleanup d takes) doc))) = None"
  using assms by (simp_all add: strict_def dialog_cleanup_def focus_element_def)

end
