(* ===== verification/Json_Text.thy ===== *)
theory Json_Text
  imports Js_Value
begin

section \<open>\<open>JSON.stringify\<close> of a list of strings can be read back\<close>

text \<open>
  The asset check compares two lists of file names by their JSON texts.  A reader for quoted strings
  shows that the text of a string determines the string, whatever escapes it needs, and that the
  text of an array of strings determines the array.
\<close>

definition hex_of :: "code_unit \<Rightarrow> nat" where
  "hex_of c = (if c < 58 then unat c - 48 else unat c - 87)"

definition unescaped :: "code_unit \<Rightarrow> code_unit" where
  "unescaped c = (if c = 98 then 8 else if c = 116 then 9 else if c = 110 then 10 else if c = 102 then 12
     else if c = 114 then 13 else c)"

text \<open>Read up to the closing quotation mark: the string and the rest of the text.\<close>

fun read_quoted :: "jstr \<Rightarrow> jstr \<times> jstr" where
  "read_quoted [] = ([], [])"
| "read_quoted [c] = (if c = 34 then ([], []) else ([c], []))"
| "read_quoted (c # d # s) =
     (if c = 34 then ([], d # s)
      else if c = 92 \<and> d = 117 then
        (case s of
           h1 # h2 # h3 # h4 # t \<Rightarrow>
             (let (xs, r) = read_quoted t
              in (of_nat (((hex_of h1 * 16 + hex_of h2) * 16 + hex_of h3) * 16 + hex_of h4) # xs, r))
         | _ \<Rightarrow> ([], []))
      else if c = 92 then (let (xs, r) = read_quoted s in (unescaped d # xs, r))
      else (let (xs, r) = read_quoted (d # s) in (c # xs, r)))"

declare read_quoted.simps(3) [simp del]

lemma hex_of_digit:
  assumes "n < 16"
  shows "hex_of (hex_digit n) = n"
proof -
  have "unat (of_nat (48 + n) :: code_unit) = 48 + n" "unat (of_nat (87 + n) :: code_unit) = 87 + n"
    using assms by (simp_all only: unat_of_nat) simp_all
  then show ?thesis
    using assms by (auto simp: hex_of_def hex_digit_def word_less_nat_alt simp del: of_nat_add)
qed

lemma unit_of_digits:
  "(of_nat (((unat c div 4096 * 16 + unat c div 256 mod 16) * 16 + unat c div 16 mod 16) * 16 + unat c mod 16) :: code_unit) = c"
proof -
  have "((n div 4096 * 16 + n div 256 mod 16) * 16 + n div 16 mod 16) * 16 + n mod 16 = n" for n :: nat
  proof -
    have "n div 256 = n div 16 div 16" "n div 4096 = n div 16 div 16 div 16"
      by (simp_all flip: div_mult2_eq)
    then show ?thesis
      by (simp only: div_mult_mod_eq)
  qed
  then show ?thesis by simp
qed

lemma read_unicode_escape:
  "read_quoted (unicode_escape c @ t) = (let (xs, r) = read_quoted t in (c # xs, r))"
proof -
  have "unat c < 65536"
    using unsigned_less [of c] by simp
  then have "unat c div 4096 < 16"
    by (simp add: less_mult_imp_div_less)
  then show ?thesis
    using unit_of_digits [of c]
    by (simp add: unicode_escape_def Let_def read_quoted.simps(3) hex_of_digit)
qed

lemma read_plain:
  assumes "c \<noteq> 34" "c \<noteq> 92" "t \<noteq> []"
  shows "read_quoted (c # t) = (let (xs, r) = read_quoted t in (c # xs, r))"
  using assms by (cases t) (simp_all add: read_quoted.simps(3))

lemma read_quote_unit:
  assumes "t \<noteq> []"
  shows "read_quoted (quote_unit c @ t) = (let (xs, r) = read_quoted t in (c # xs, r))"
  using assms read_unicode_escape [of c t] read_plain [of c t]
  by (auto simp: quote_unit_def read_quoted.simps(3) unescaped_def)

lemma surrogate_plain: "is_high c \<or> is_low c \<Longrightarrow> c \<noteq> 34 \<and> c \<noteq> 92"
  by (auto simp: is_high_def is_low_def)

lemma read_quote_units: "read_quoted (quote_units s @ 34 # r) = (s, r)"
proof (induction s rule: quote_units.induct)
  case 1
  then show ?case by (cases r) (simp_all add: read_quoted.simps(3))
next
  case (2 c)
  have "read_quoted (34 # r) = ([], r)"
    by (cases r) (simp_all add: read_quoted.simps(3))
  then show ?case
    by (simp add: read_quote_unit)
next
  case (3 c d s)
  show ?case
  proof (cases "is_high c \<and> is_low d")
    case True
    then show ?thesis
      using 3 surrogate_plain [of c] surrogate_plain [of d] by (simp add: read_plain)
  next
    case False
    then have "quote_units (c # d # s) = quote_unit c @ quote_units (d # s)"
      by (simp only: quote_units.simps if_False)
    then show ?thesis
      using 3(2) [OF False] by (simp add: read_quote_unit del: quote_units.simps)
  qed
qed

lemma quote_prefix_inject: "quote s @ r = quote t @ q \<Longrightarrow> s = t \<and> r = q"
proof -
  assume "quote s @ r = quote t @ q"
  then have "quote_units s @ 34 # r = quote_units t @ 34 # q"
    by (simp add: quote_def)
  then show ?thesis
    by (metis read_quote_units prod.inject)
qed

lemma quote_inject [simp]: "quote s = quote t \<longleftrightarrow> s = t"
  using quote_prefix_inject [of s "[]" t "[]"] by auto

lemma join_quotes_inject:
  "join_with (lit '','') (map quote xs) @ [93] = join_with (lit '','') (map quote ys) @ [93] \<Longrightarrow> xs = ys"
proof (induction xs arbitrary: ys)
  case Nil
  show ?case
  proof (cases ys)
    case (Cons y zs)
    then show ?thesis
      using Nil by (cases zs) (simp_all add: quote_def)
  qed simp
next
  case (Cons x xs)
  have split: "join_with (lit '','') (map quote (z # zs)) @ [93] =
      quote z @ (if zs = [] then [93] else 44 # (join_with (lit '','') (map quote zs) @ [93]))" for z zs
    by (cases zs) (simp_all add: lit_def)
  show ?case
  proof (cases ys)
    case Nil
    then show ?thesis
      using Cons.prems by (cases xs) (simp_all add: quote_def)
  next
    case (Cons y zs)
    then have e: "quote x @ (if xs = [] then [93] else 44 # (join_with (lit '','') (map quote xs) @ [93])) =
        quote y @ (if zs = [] then [93] else 44 # (join_with (lit '','') (map quote zs) @ [93]))"
      using Cons.prems by (simp only: split)
    from quote_prefix_inject [OF e] have "x = y" "xs = zs"
      using Cons.IH [of zs] by (auto split: if_splits)
    then show ?thesis
      by (simp add: Cons)
  qed
qed

lemma json_strings_inject:
  "json_stringify (JArr (map JStr xs)) = json_stringify (JArr (map JStr ys)) \<longleftrightarrow> xs = ys"
  using join_quotes_inject [of xs ys] by (auto simp: comp_def lit_def)

end
