(* ===== verification/Asset_Scripts.thy ===== *)
theory Asset_Scripts
  imports Json_Text Module_Resolution "HOL-Library.List_Lexorder"
begin

section \<open>The asset scripts: \<open>scripts/build-variants.mjs\<close>, \<open>scripts/check-assets.mjs\<close>, \<open>vite.config.ts\<close>\<close>

text \<open>
  One script builds the production assets of every variant, the other rebuilds each variant in a
  temporary directory and compares it with the assets in the repository.  The build tool is a
  parameter: \<open>spawn\<close> gives the status of a build (\<open>None\<close> is the null status of a process that was
  killed or not started), \<open>vite\<close> also the directory it produced.  A directory is the list of its
  entries; an entry that is not a directory is a file.  An uncaught error and \<open>process.exit\<close> end a
  run, and differ in that \<open>process.exit\<close> does not run \<open>finally\<close> blocks.
\<close>

type_synonym variant = "jstr option \<times> jstr \<times> jstr"

definition variants :: "bool \<Rightarrow> variant list" where
  "variants has_selections =
     (if has_selections then
        [(Some (lit ''default''), lit ''local'', lit ''../internal/web/dist''),
         (Some (lit ''tasks''), lit ''local'', lit ''../internal/web/dist-tasks''),
         (Some (lit ''audit''), lit ''local'', lit ''../internal/web/dist-audit''),
         (Some (lit ''operations''), lit ''local'', lit ''../internal/web/dist-operations''),
         (Some (lit ''default''), lit ''oidc'', lit ''../internal/web/dist-oidc''),
         (Some (lit ''tasks''), lit ''oidc'', lit ''../internal/web/dist-oidc-tasks''),
         (Some (lit ''audit''), lit ''oidc'', lit ''../internal/web/dist-oidc-audit''),
         (Some (lit ''operations''), lit ''oidc'', lit ''../internal/web/dist-oidc-operations'')]
      else [(None, lit ''local'', lit ''../internal/web/dist'')])"

definition check_variants :: "bool \<Rightarrow> variant list" where
  "check_variants has_selections =
     (if has_selections then
        [(Some (lit ''default''), lit ''local'', lit ''../internal/web/dist''),
         (Some (lit ''tasks''), lit ''local'', lit ''../internal/web/dist-tasks''),
         (Some (lit ''audit''), lit ''local'', lit ''../internal/web/dist-audit''),
         (Some (lit ''operations''), lit ''local'', lit ''../internal/web/dist-operations''),
         (Some (lit ''default''), lit ''oidc'', lit ''../internal/web/dist-oidc''),
         (Some (lit ''tasks''), lit ''oidc'', lit ''../internal/web/dist-oidc-tasks''),
         (Some (lit ''audit''), lit ''oidc'', lit ''../internal/web/dist-oidc-audit''),
         (Some (lit ''operations''), lit ''oidc'', lit ''../internal/web/dist-oidc-operations'')]
      else [(None, lit ''local'', lit ''../internal/web/dist'')])"

type_synonym environment = "(jstr \<times> jstr) list"

record spawn_request =
  spawn_args :: "jstr list"
  spawn_env :: environment

definition variant_env :: "environment \<Rightarrow> variant \<Rightarrow> environment" where
  "variant_env env v =
     (case v of
        (None, _, _) \<Rightarrow> env
      | (Some selection, authentication, _) \<Rightarrow>
          if selection = [] then env
          else assoc_set (lit ''VITE_AUTH_SELECTION'') authentication
                 (assoc_set (lit ''VITE_ADMIN_SELECTION'') selection env))"

definition build_request :: "environment \<Rightarrow> jstr \<Rightarrow> variant \<Rightarrow> spawn_request" where
  "build_request env outDir v =
     \<lparr>spawn_args = [lit ''exec'', lit ''vite'', lit ''build'', lit ''--outDir'', outDir, lit ''--emptyOutDir''],
      spawn_env = variant_env env v\<rparr>"

definition exit_status :: "nat option \<Rightarrow> nat" where
  "exit_status st = (case st of None \<Rightarrow> 1 | Some n \<Rightarrow> n)"

text \<open>The requests the build script makes and the status it exits with, \<open>None\<close> when it runs to its
  end.\<close>

fun build_all :: "(spawn_request \<Rightarrow> nat option) \<Rightarrow> environment \<Rightarrow> variant list \<Rightarrow> spawn_request list \<times> nat option" where
  "build_all spawn env [] = ([], None)"
| "build_all spawn env (v # vs) =
     (let r = build_request env (snd (snd v)) v; st = spawn r
      in if st \<noteq> Some 0 then ([r], Some (exit_status st))
         else (let (rs, e) = build_all spawn env vs in (r # rs, e)))"

subsection \<open>Directories\<close>

datatype node = File "8 word list" | Directory "(jstr \<times> node) list"

type_synonym entries = "(jstr \<times> node) list"

text \<open>\<open>walk\<close> visits the entries in the order \<open>readdirSync\<close> lists them and records the path of every
  file relative to the root; the prefix is the path of the directory it is in.\<close>

fun walk :: "jstr \<Rightarrow> entries \<Rightarrow> (jstr \<times> 8 word list) list" where
  "walk pre [] = []"
| "walk pre ((n, File c) # es) = (pre @ n, c) # walk pre es"
| "walk pre ((n, Directory ds) # es) = walk (pre @ n @ lit ''/'') ds @ walk pre es"

definition files :: "entries \<Rightarrow> jstr list" where
  "files es = sort (map fst (walk [] es))"

definition readFile :: "entries \<Rightarrow> jstr \<Rightarrow> 8 word list option" where
  "readFile es p = map_of (walk [] es) p"

subsection \<open>The check\<close>

datatype check_result = CheckPassed | CheckExited nat | CheckFailed jstr

definition selection_text :: "variant \<Rightarrow> jstr" where
  "selection_text v = (case fst v of None \<Rightarrow> lit ''null'' | Some s \<Rightarrow> s)"

text \<open>How a build ended: the process could not be started, was ended by a signal, or exited.  Only the
  last has a status; in the first there is no output either, and writing it raises an error.\<close>

datatype spawned = NotStarted | Signalled | Exited nat

fun status_of :: "spawned \<Rightarrow> nat option" where
  "status_of (Exited n) = Some n"
| "status_of _ = None"

text \<open>One round of the loop: its result, and whether the \<open>finally\<close> block removed the temporary
  directory.\<close>

definition check_variant ::
    "(spawn_request \<Rightarrow> spawned \<times> entries) \<Rightarrow> environment \<Rightarrow> (jstr \<Rightarrow> entries option) \<Rightarrow> jstr \<Rightarrow> variant \<Rightarrow>
     check_result \<times> bool" where
  "check_variant vite env expected temporary v =
     (let (result, actual) = vite (build_request env temporary v)
      in if status_of result \<noteq> Some 0
         then
           (if result = NotStarted then (CheckFailed (lit ''May not write null values to stream''), True)
            else (CheckExited (exit_status (status_of result)), False))
         else
           (case expected (snd (snd v)) of
              None \<Rightarrow> (CheckFailed (lit ''ENOENT''), True)
            | Some es \<Rightarrow>
                if json_stringify (JArr (map JStr (files es))) \<noteq> json_stringify (JArr (map JStr (files actual)))
                then (CheckFailed (selection_text v @ lit '' asset file set differs''), True)
                else
                  (case find (\<lambda>name. readFile es name \<noteq> readFile actual name) (files es) of
                     Some name \<Rightarrow> (CheckFailed (selection_text v @ lit '' asset differs: '' @ name), True)
                   | None \<Rightarrow> (CheckPassed, True))))"

text \<open>The whole run: its result and the temporary directories it leaves behind; \<open>tmp\<close> names the
  directory \<open>mkdtempSync\<close> makes in each round.\<close>

fun check_all ::
    "(spawn_request \<Rightarrow> spawned \<times> entries) \<Rightarrow> environment \<Rightarrow> (jstr \<Rightarrow> entries option) \<Rightarrow> (nat \<Rightarrow> jstr) \<Rightarrow> nat \<Rightarrow>
     variant list \<Rightarrow> check_result \<times> jstr list" where
  "check_all vite env expected tmp k [] = (CheckPassed, [])"
| "check_all vite env expected tmp k (v # vs) =
     (let (r, removed) = check_variant vite env expected (tmp k) v;
          left = (if removed then [] else [tmp k])
      in if r \<noteq> CheckPassed then (r, left)
         else (let (r', left') = check_all vite env expected tmp (Suc k) vs in (r', left @ left')))"

subsection \<open>What a variant is built from\<close>

definition selection_source :: "jstr option \<Rightarrow> jstr" where
  "selection_source selection =
     (case selection of
        None \<Rightarrow> []
      | Some s \<Rightarrow> if s = [] then [] else lit ''./scripts/selections/'' @ s @ lit ''.ts.txt'')"

definition uses_oidc :: "jstr option \<Rightarrow> bool" where
  "uses_oidc authentication \<longleftrightarrow> authentication = Some (lit ''oidc'')"

definition login_source :: "jstr option \<Rightarrow> jstr" where
  "login_source authentication =
     (if uses_oidc authentication then lit ''./src/views/LoginView.oidc.tsx'' else lit ''./src/views/LoginView.tsx'')"

definition auth_source :: "jstr option \<Rightarrow> jstr" where
  "auth_source authentication =
     (if uses_oidc authentication then lit ''./src/stores/auth.oidc.tsx'' else lit ''./src/stores/auth.tsx'')"

definition active_source :: jstr where
  "active_source = lit ''./src/modules/active.ts''"

definition load_module :: "(jstr \<Rightarrow> jstr) \<Rightarrow> jstr option \<Rightarrow> jstr \<Rightarrow> jstr option" where
  "load_module readFileSync selection i =
     (if selection_source selection \<noteq> [] \<and> i = active_source
      then Some (readFileSync (selection_source selection)) else None)"

definition aliases :: "jstr option \<Rightarrow> (jstr \<times> jstr) list" where
  "aliases authentication =
     [(lit ''@/modules/active'', active_source),
      (lit ''@/views/LoginView'', login_source authentication),
      (lit ''@/stores/auth'', auth_source authentication),
      (lit ''@'', lit ''./src'')]"

text \<open>
  How the build tool applies the table is its own; it documents that an import is rewritten by the
  first entry whose name it is, or whose name followed by a slash it starts with.
\<close>

definition alias_matches :: "jstr \<Rightarrow> jstr \<Rightarrow> bool" where
  "alias_matches find_name i \<longleftrightarrow> i = find_name \<or> starts_with i (find_name @ lit ''/'')"

definition resolver_ok :: "((jstr \<times> jstr) list \<Rightarrow> jstr \<Rightarrow> jstr) \<Rightarrow> bool" where
  "resolver_ok resolver \<longleftrightarrow>
     (\<forall>table i. resolver table i =
        (case find (\<lambda>e. alias_matches (fst e) i) table of
           None \<Rightarrow> i
         | Some e \<Rightarrow> snd e @ drop (length (fst e)) i))"

record build_options =
  outDir :: jstr
  emptyOutDir :: bool
  sourcemap :: bool
  entryFileNames :: jstr
  chunkFileNames :: jstr

definition build_config :: build_options where
  "build_config =
     \<lparr>outDir = lit ''../internal/web/dist'', emptyOutDir = True, sourcemap = False,
      entryFileNames = lit ''assets/app-[hash].js'', chunkFileNames = lit ''assets/[name]-[hash].js''\<rparr>"

definition dev_proxy :: "(jstr \<times> jstr) list" where
  "dev_proxy = map (\<lambda>p. (lit p, lit ''http://127.0.0.1:8080'')) [''/api'', ''/livez'', ''/readyz'']"

definition endsWith :: "jstr \<Rightarrow> jstr \<Rightarrow> bool" where
  "endsWith s suf \<longleftrightarrow> drop (length s - length suf) s = suf"

definition assetFileNames :: "jstr list \<Rightarrow> jstr" where
  "assetFileNames names =
     (if \<exists>name \<in> set names. endsWith name (lit ''.css'')
      then lit ''assets/app-[hash][extname]'' else lit ''assets/[name]-[hash][extname]'')"

subsection \<open>The build script\<close>


subsection \<open>Paths of a directory\<close>

fun entries_ok :: "entries \<Rightarrow> bool" where
  "entries_ok [] = True"
| "entries_ok ((n, x) # es) =
     (47 \<notin> set n \<and> n \<notin> fst ` set es \<and> (case x of File c \<Rightarrow> True | Directory ds \<Rightarrow> entries_ok ds) \<and> entries_ok es)"

lemma walk_prefix: "walk (q @ pre) es = map (\<lambda>(p, c). (q @ p, c)) (walk pre es)"
proof (induction pre es arbitrary: q rule: walk.induct)
  case (3 pre n ds es)
  then show ?case by (metis append.assoc map_append walk.simps(3))
qed simp_all

lemma walk_from_root: "walk q es = map (\<lambda>(p, c). (q @ p, c)) (walk [] es)"
  using walk_prefix [of q "[]"] by simp

definition first_name :: "jstr \<Rightarrow> jstr" where
  "first_name p = takeWhile (\<lambda>c. c \<noteq> 47) p"

lemma first_name_simps [simp]:
  "47 \<notin> set n \<Longrightarrow> first_name n = n" "47 \<notin> set n \<Longrightarrow> first_name (n @ lit ''/'' @ p) = n"
  by (auto simp: first_name_def takeWhile_eq_all_conv lit_def intro: takeWhile_eq_all_conv [THEN iffD2])
    (induction n, auto)+

lemma walk_first_name: "entries_ok es \<Longrightarrow> p \<in> fst ` set (walk [] es) \<Longrightarrow> first_name p \<in> fst ` set es"
proof (induction "[] :: jstr" es rule: walk.induct)
  case (3 n ds es)
  then show ?case
    by (auto simp: walk_from_root [of "n @ lit ''/''"] image_image)
qed auto

lemma walk_distinct: "entries_ok es \<Longrightarrow> distinct (map fst (walk [] es))"
proof (induction es rule: entries_ok.induct)
  case (2 n x es)
  show ?case
  proof (cases x)
    case (File c)
    then show ?thesis
      using 2 walk_first_name [of es n] by (auto simp: image_iff)
  next
    case (Directory ds)
    have "distinct (map fst (walk (n @ lit ''/'') ds))"
      using 2 Directory by (simp add: walk_from_root [of "n @ lit ''/''"] comp_def split_beta distinct_map inj_on_def)
    moreover have "fst ` set (walk (n @ lit ''/'') ds) \<inter> fst ` set (walk [] es) = {}"
      using 2(3) walk_first_name [of es] by (auto simp: walk_from_root [of "n @ lit ''/''"] image_iff) force
    ultimately show ?thesis
      using 2 Directory by simp
  qed
qed simp

subsection \<open>The check is exact\<close>

lemma files_eq_iff:
  assumes "entries_ok es" "entries_ok es'"
  shows "files es = files es' \<longleftrightarrow> fst ` set (walk [] es) = fst ` set (walk [] es')"
proof
  assume "files es = files es'"
  then have "set (files es) = set (files es')"
    by simp
  then show "fst ` set (walk [] es) = fst ` set (walk [] es')"
    by (simp add: files_def)
next
  assume "fst ` set (walk [] es) = fst ` set (walk [] es')"
  then show "files es = files es'"
    unfolding files_def using walk_distinct [OF assms(1)] walk_distinct [OF assms(2)]
    by (intro sorted_distinct_set_unique) simp_all
qed

lemma same_files_iff:
  assumes "entries_ok es" "entries_ok es'"
  shows "files es = files es' \<and> (\<forall>name \<in> set (files es). readFile es name = readFile es' name) \<longleftrightarrow>
    readFile es = readFile es'"
proof -
  have dom: "dom (readFile xs) = fst ` set (walk [] xs)" for xs
  proof -
    have "readFile xs = map_of (walk [] xs)"
      by (rule ext) (simp add: readFile_def)
    then show ?thesis by (simp add: dom_map_of_conv_image_fst)
  qed
  have "readFile es = readFile es' \<longleftrightarrow> dom (readFile es) = dom (readFile es') \<and>
      (\<forall>name \<in> dom (readFile es). readFile es name = readFile es' name)"
    by (metis (no_types, lifting) domIff ext)
  then show ?thesis
    by (simp add: files_eq_iff [OF assms] dom) (simp add: files_def)
qed

definition variant_good ::
    "(spawn_request \<Rightarrow> spawned \<times> entries) \<Rightarrow> environment \<Rightarrow> (jstr \<Rightarrow> entries option) \<Rightarrow> jstr \<Rightarrow> variant \<Rightarrow> bool" where
  "variant_good vite env expected temporary v \<longleftrightarrow>
     fst (vite (build_request env temporary v)) = Exited 0 \<and>
     (\<exists>es. expected (snd (snd v)) = Some es \<and> readFile es = readFile (snd (vite (build_request env temporary v))))"

lemma status_zero: "status_of result = Some 0 \<longleftrightarrow> result = Exited 0"
  by (cases result) simp_all

lemma check_variant_passed:
  assumes "\<And>r. entries_ok (snd (vite r))" and "\<And>out es. expected out = Some es \<Longrightarrow> entries_ok es"
  shows "fst (check_variant vite env expected temporary v) = CheckPassed \<longleftrightarrow> variant_good vite env expected temporary v"
proof (cases "expected (snd (snd v))")
  case (Some es)
  let ?actual = "snd (vite (build_request env temporary v))"
  have "find (\<lambda>name. readFile es name \<noteq> readFile ?actual name) (files es) = None \<longleftrightarrow>
      (\<forall>name \<in> set (files es). readFile es name = readFile ?actual name)"
    by (auto simp: find_None_iff)
  then show ?thesis
    using same_files_iff [OF assms(2) [OF Some] assms(1), of "build_request env temporary v"]
    by (auto simp: check_variant_def variant_good_def status_zero Some split_beta Let_def json_strings_inject simp del: json_stringify.simps
        split: option.splits)
qed (simp add: check_variant_def variant_good_def status_zero split_beta Let_def)

lemma check_variant_removed:
  "snd (check_variant vite env expected temporary v) \<longleftrightarrow>
     (\<forall>n. fst (check_variant vite env expected temporary v) \<noteq> CheckExited n)"
  by (auto simp: check_variant_def split_beta Let_def split: option.splits)

text \<open>
  C23.  The asset check passes exactly when the assets are those the sources build: it passes if and
  only if every variant of the table builds and the files in the repository and the files just
  built are the same, path by path and byte by byte.  The directories are as file systems make
  them, with distinct names that contain no slash.
\<close>

theorem check_all_exact:
  assumes "\<And>r. entries_ok (snd (vite r))" and "\<And>out es. expected out = Some es \<Longrightarrow> entries_ok es"
  shows "fst (check_all vite env expected tmp k vs) = CheckPassed \<longleftrightarrow>
    (\<forall>i < length vs. variant_good vite env expected (tmp (k + i)) (vs ! i))"
proof (induction vs arbitrary: k)
  case (Cons v vs)
  have "(\<forall>i < length (v # vs). variant_good vite env expected (tmp (k + i)) ((v # vs) ! i)) \<longleftrightarrow>
      variant_good vite env expected (tmp k) v \<and>
      (\<forall>i < length vs. variant_good vite env expected (tmp (Suc k + i)) (vs ! i))"
    by (auto simp: less_Suc_eq_0_disj)
  then show ?case
    using Cons check_variant_passed [OF assms, where env = env and temporary = "tmp k" and v = v] by (simp add: split_beta Let_def)
qed simp

theorem check_all_exact_witness:
  "fst (check_all (\<lambda>r. (Exited 0, [(lit ''a'', File [1])])) [] (\<lambda>out. Some [(lit ''a'', File [1])]) (\<lambda>k. []) 0 (check_variants False))
     = CheckPassed"
proof -
  have ok: "entries_ok [(lit ''a'', File [1])]"
    by (simp add: lit_def)
  have "variant_good (\<lambda>r. (Exited 0, [(lit ''a'', File [1])])) [] (\<lambda>out. Some [(lit ''a'', File [1])]) t v" for t v
    by (simp add: variant_good_def)
  then show ?thesis
    using check_all_exact [of "\<lambda>r. (Exited 0, [(lit ''a'', File [1])])" "\<lambda>out. Some [(lit ''a'', File [1])]"] ok by simp
qed

text \<open>
  The check leaves a temporary directory behind exactly when a build runs and fails: \<open>process.exit\<close>
  inside the \<open>try\<close> block ends the process before the \<open>finally\<close> block can remove it, while the
  failures that throw, a build that cannot be started among them, and success clean up.
\<close>

lemma check_leaves_temporary:
  "snd (check_all vite env expected tmp k vs) \<noteq> [] \<longleftrightarrow> (\<exists>n. fst (check_all vite env expected tmp k vs) = CheckExited n)"
proof (induction vs arbitrary: k)
  case (Cons v vs)
  then show ?case
    using check_variant_removed [of vite env expected "tmp k" v]
    by (auto simp: split_beta Let_def)
qed simp

subsection \<open>The table and the configuration agree\<close>

text \<open>
  The check covers what the build makes, each variant once and from the right sources: both
  scripts use the same table; no two rows have the same output directory or the same pair of
  selections; and for each row with a selection, the environment it sets makes the configuration
  load that selection in place of the active modules and, exactly for the OIDC rows, the OIDC login
  view and session store.
\<close>

lemma variants_consistent:
  "check_variants s = variants s \<and>
   distinct (map (snd \<circ> snd) (variants s)) \<and> distinct (map (\<lambda>v. (fst v, fst (snd v))) (variants s)) \<and>
   list_all (\<lambda>v. case v of
       (None, _, _) \<Rightarrow> True
     | (Some selection, authentication, _) \<Rightarrow>
         (let env = map_of (variant_env [] v); a = env (lit ''VITE_AUTH_SELECTION'')
          in load_module id (env (lit ''VITE_ADMIN_SELECTION'')) active_source =
               Some (lit ''./scripts/selections/'' @ selection @ lit ''.ts.txt'') \<and>
             (auth_source a = lit ''./src/stores/auth.oidc.tsx'' \<longleftrightarrow> authentication = lit ''oidc'') \<and>
             (login_source a = lit ''./src/views/LoginView.oidc.tsx'' \<longleftrightarrow> authentication = lit ''oidc'')))
     (variants s)"
  by (cases s) (simp_all add: variants_def check_variants_def variant_env_def load_module_def selection_source_def
      auth_source_def login_source_def uses_oidc_def Let_def)

text \<open>
  The imports of the session store and the login view reach the variant's files, although the last
  entry of the table, for the whole source directory, matches them too; other imports go to that
  directory, and a build without options writes where the first variant belongs.
\<close>

lemma alias_selects:
  assumes "resolver_ok resolver"
  shows "resolver (aliases a) (lit ''@/stores/auth'') = auth_source a"
    "resolver (aliases a) (lit ''@/views/LoginView'') = login_source a"
    "resolver (aliases a) (lit ''@/modules/active'') = active_source"
    "resolver (aliases a) (lit ''@/stores/app'') = lit ''./src/stores/app''"
    "outDir build_config = snd (snd (hd (variants s)))"
  using assms
  by (simp_all add: resolver_ok_def aliases_def alias_matches_def starts_with_def build_config_def variants_def)
    (simp_all add: lit_def)

end
