(* ===== verification/Counter_Page.thy ===== *)
theory Counter_Page
  imports Api_Client
begin

section \<open>The counter example's page: \<open>examples/counter/internal/ui/static/app.js\<close>\<close>

text \<open>
  The script asks for the health of the application once and writes a sentence into the status
  element.  \<open>None\<close> as a result of \<open>health_text\<close> is the TypeError of reading a member of null or
  undefined; \<open>None\<close> as a result of \<open>counter_page\<close> is the rejection nobody handles when the page has
  no status element.
\<close>

definition unavailable_sentence :: jstr where
  "unavailable_sentence = lit ''Application health is unavailable.''"

definition health_text :: "jval \<Rightarrow> jstr option" where
  "health_text health = do {
     application \<leftarrow> member health ''application'';
     n \<leftarrow> member application ''name'';
     application' \<leftarrow> member health ''application'';
     v \<leftarrow> member application' ''version'';
     s \<leftarrow> member health ''status'';
     Some (to_text n @ lit '' '' @ to_text v @ lit '' is '' @ to_text s @ lit ''.'') }"

definition health_result :: "fetch_outcome \<Rightarrow> jstr option" where
  "health_result oc =
     (case oc of
        FetchRejected c \<Rightarrow> None
      | Response status body \<Rightarrow>
          if \<not> response_ok status then None
          else (case body of None \<Rightarrow> None | Some health \<Rightarrow> health_text health))"

definition counter_page :: "bool \<Rightarrow> fetch_outcome \<Rightarrow> jstr option" where
  "counter_page has_status oc =
     (if \<not> has_status then None
      else (case health_result oc of None \<Rightarrow> Some unavailable_sentence | Some t \<Rightarrow> Some t))"

lemma health_text_eq:
  "health_text health =
     (if nullish health \<or> nullish (get_prop health ''application'') then None
      else Some (to_text (get_prop (get_prop health ''application'') ''name'') @ lit '' '' @
        to_text (get_prop (get_prop health ''application'') ''version'') @ lit '' is '' @
        to_text (get_prop health ''status'') @ lit ''.''))"
  by (simp add: health_text_def member_def)

text \<open>
  The counter page always ends with a sentence: with its status element present it shows the
  name, version and status the server sent when the response is a success with a readable body that
  has an application, and the sentence that health is unavailable in every other case, whatever
  failed on the way.
\<close>

lemma counter_page_total:
  "counter_page True oc = Some
     (case oc of
        Response st (Some health) \<Rightarrow>
          if response_ok st \<and> \<not> nullish health \<and> \<not> nullish (get_prop health ''application'')
          then to_text (get_prop (get_prop health ''application'') ''name'') @ lit '' '' @
            to_text (get_prop (get_prop health ''application'') ''version'') @ lit '' is '' @
            to_text (get_prop health ''status'') @ lit ''.''
          else unavailable_sentence
      | _ \<Rightarrow> unavailable_sentence)"
  by (simp add: counter_page_def health_result_def health_text_eq split: fetch_outcome.splits option.splits)

end
