(* ===== verification/Action_Contracts.thy ===== *)
theory Action_Contracts
  imports Admin_Prelude
begin

section \<open>Action contracts: \<open>examples/counter/internal/generated/action_contracts.ts\<close>\<close>

text \<open>
  The declarations the action catalog of the counter example generates for its clients.  An interface
  is the list of its members; a type that is computed from a contract is a function that computes the
  members, \<open>never\<close> being none.
\<close>

datatype field_type = NumberField

type_synonym shape = "(jstr \<times> field_type) list"

record action_contract =
  contract_input :: shape
  contract_preview :: "shape option"
  contract_output :: shape
  contract_errors :: "(jstr \<times> jstr) list"

definition FrameworkActionErrors :: "(jstr \<times> jstr) list" where
  "FrameworkActionErrors =
     [(lit ''ACTION_NOT_FOUND'', lit ''not_found''),
      (lit ''AUTHZ_DENIED'', lit ''denied''),
      (lit ''IDEMPOTENCY_CONFLICT'', lit ''conflict''),
      (lit ''IDEMPOTENCY_IN_PROGRESS'', lit ''conflict''),
      (lit ''IDEMPOTENCY_REQUIRED'', lit ''precondition_required''),
      (lit ''INTERNAL_ERROR'', lit ''internal''),
      (lit ''LIMIT_EXCEEDED'', lit ''limit''),
      (lit ''PLAN_NOT_FOUND'', lit ''not_found''),
      (lit ''PLAN_REQUIRED'', lit ''precondition_required''),
      (lit ''PLAN_STALE'', lit ''conflict''),
      (lit ''PRECONDITION_FAILED'', lit ''precondition''),
      (lit ''UNAVAILABLE'', lit ''unavailable''),
      (lit ''VALIDATION_FAILED'', lit ''validation'')]"

definition ActionContracts :: "(jstr \<times> action_contract) list" where
  "ActionContracts =
     [(lit ''counter.increment'',
       \<lparr>contract_input = [(lit ''amount'', NumberField), (lit ''expected_version'', NumberField)],
        contract_preview = Some
          [(lit ''current_value'', NumberField), (lit ''current_version'', NumberField),
           (lit ''next_value'', NumberField), (lit ''next_version'', NumberField)],
        contract_output = [(lit ''value'', NumberField), (lit ''version'', NumberField)],
        contract_errors = [(lit ''COUNTER.VERSION_CONFLICT'', lit ''conflict'')]\<rparr>)]"

definition ActionID :: "jstr list" where
  "ActionID = map fst ActionContracts"

definition PreviewActionID :: "jstr list" where
  "PreviewActionID = map fst (filter (\<lambda>p. contract_preview (snd p) \<noteq> None) ActionContracts)"

definition ActionInput :: "jstr \<Rightarrow> shape option" where
  "ActionInput i = map_option contract_input (map_of ActionContracts i)"

definition ActionOutput :: "jstr \<Rightarrow> shape option" where
  "ActionOutput i = map_option contract_output (map_of ActionContracts i)"

definition ActionPreview :: "jstr \<Rightarrow> shape option" where
  "ActionPreview i = (case map_of ActionContracts i of None \<Rightarrow> None | Some c \<Rightarrow> contract_preview c)"

definition FrameworkActionErrorCode :: "jstr list" where
  "FrameworkActionErrorCode = map fst FrameworkActionErrors"

definition DeclaredActionErrorCode :: "jstr \<Rightarrow> jstr list" where
  "DeclaredActionErrorCode i =
     (case map_of ActionContracts i of None \<Rightarrow> [] | Some c \<Rightarrow> map fst (contract_errors c))"

definition ActionErrorCode :: "jstr \<Rightarrow> jstr list" where
  "ActionErrorCode i = FrameworkActionErrorCode @ DeclaredActionErrorCode i"

definition ActionErrorKind :: "jstr \<Rightarrow> jstr \<Rightarrow> jstr option" where
  "ActionErrorKind i code =
     (if code \<in> set FrameworkActionErrorCode then map_of FrameworkActionErrors code
      else (case map_of ActionContracts i of None \<Rightarrow> None | Some c \<Rightarrow> map_of (contract_errors c) code))"

lemmas contract_defs = ActionContracts_def ActionID_def PreviewActionID_def FrameworkActionErrors_def
  FrameworkActionErrorCode_def DeclaredActionErrorCode_def

text \<open>An error code has a kind exactly when it is one of the codes of the action.\<close>

lemma error_kind_codes: "ActionErrorKind i code = None \<longleftrightarrow> code \<notin> set (ActionErrorCode i)"
proof -
  have m: "map_of xs code = None \<longleftrightarrow> code \<notin> set (map fst xs)" for xs :: "(jstr \<times> jstr) list"
    by (simp add: map_of_eq_None_iff)
  show ?thesis
    by (cases "map_of ActionContracts i"; cases "code \<in> set FrameworkActionErrorCode")
      (simp_all only: ActionErrorKind_def ActionErrorCode_def DeclaredActionErrorCode_def FrameworkActionErrorCode_def
        option.case if_True if_False m set_append Un_iff list.set empty_iff simp_thms)
qed

text \<open>No declared code hides a code of the framework, so a declared error keeps the kind it was declared
  with, and a preview is declared exactly for the actions that have one.\<close>

lemma declared_codes_distinct: "distinct (ActionErrorCode i)"
proof (cases "map_of ActionContracts i")
  case None
  then show ?thesis
    by (simp add: ActionErrorCode_def DeclaredActionErrorCode_def FrameworkActionErrorCode_def FrameworkActionErrors_def)
next
  case (Some c)
  then have "i = lit ''counter.increment''"
    by (simp add: ActionContracts_def split: if_splits)
  then show ?thesis
    by (simp add: ActionErrorCode_def contract_defs)
qed

lemma preview_ids: "i \<in> set PreviewActionID \<longleftrightarrow> ActionPreview i \<noteq> None"
  by (simp add: contract_defs ActionPreview_def)

end
