(* ===== verification/Spec2Isabelle.thy ===== *)
theory Spec2Isabelle
  imports Component_Tree Auth_Oidc Shell_System System_Liveness Strict_Mode Asset_Scripts Counter_Page Action_Contracts
begin

text \<open>
  \<^bold>\<open>The Admin front end of Modary, verified.\<close>

  Modary is a framework for governed back-office applications.  Its server parts are Go packages;
  the part modelled here is the browser application that the starter copies into a new project,
  \<open>src/starter/templates/admin/web\<close>, with the scripts that build and check its assets, and the
  page script of the counter example.

  \<^bold>\<open>The program.\<close>  The application is a React program.  \<open>api/client.ts\<close> sends every request:
  it adds the CSRF token, turns error bodies into errors with a localized message, and tells the
  session store when a session has expired.  \<open>stores/app.tsx\<close> loads the application's metadata
  and \<open>stores/auth.tsx\<close> (or \<open>stores/auth.oidc.tsx\<close>) the session, its modules and its grants.
  \<open>modules/index.ts\<close> matches the modules compiled into the application with those the server
  offers.  \<open>App.tsx\<close> decides from session and modules which screen a location shows;
  \<open>views/LoginView.tsx\<close> signs in; \<open>components/AppShell.tsx\<close> is the frame around the module
  views.  The views for tasks and the audit log load pages of a table, guarded by the request hook
  \<open>useLatestRequest.ts\<close>; the view for records has its own store, dialogs and notifications
  (\<open>stores/toast.tsx\<close>).

  \<^bold>\<open>How the code is modelled.\<close>  Strings are lists of UTF-16 code units, JSON values a datatype.
  The state of a provider or view is a record with the source's state variables and refs, together
  with what its effects touch: timers, animation frames, the focus, the style of the body, and
  the requests in flight.  An asynchronous function is split at its \<open>await\<close>s: the first segment is
  an operation, each later one the reaction to the outcome of a request.  A handler, the render it
  causes and the effects of that render are one step.  The step relations have one rule per event
  with the condition under which the code lets it happen, and deliver the outcomes of requests in
  any order and with any content.  The network, the router package, the build tool, the locale's
  lower-casing and date formatting are parameters.  A successful payload is assumed to have the
  type the source declares for it, which the source does not check: the readers (\<open>as_session\<close> and
  the like) give \<open>None\<close> otherwise, and then the model has no step.

  \<^bold>\<open>The theories.\<close>

  \<^item> \<open>Admin_Prelude\<close>: strings and their operations, association lists, generic lemmas, and the
    locales \<open>invariant_system\<close> (what a step relation keeps) and \<open>simulation\<close> (an implementation
    and its specification under a relation between their states).
  \<^item> \<open>Js_Value\<close>, \<open>Json_Text\<close>, \<open>Uri_Text\<close>: values and conversions of the language, with the round
    trips of \<open>JSON.stringify\<close> on strings, of UTF-8, of \<open>encodeURIComponent\<close> and of query strings.
  \<^item> \<open>Api_Client\<close>: \<open>api_request\<close> is the request \<open>api\<close> sends, \<open>api_settle\<close> its reaction.  Shown: when
    the token is sent, when \<open>api\<close> resolves, when the expiry handler runs, which message an error has.
  \<^item> \<open>App_Store\<close>, \<open>Auth_Store\<close>: the two stores; \<open>auth_step\<close> is the step relation.
    \<open>Auth_Invariants\<close> relates the flags to the requests in flight; \<open>Auth_Properties\<close> derives that
    initialization cannot hang, that there are no rights without an actor, that at most one
    operation is in flight, that a session is never replaced by another without a sign-out between
    them, and what sign-in and sign-out do on every outcome.  \<open>Auth_Oidc\<close> models
    the second copy of the store, for OIDC, and shows that it is the local one without the login.
  \<^item> \<open>Module_Resolution\<close>: which modules are offered, exactly.
  \<^item> \<open>Routes_Login\<close>: the route elements and the login form.  Shown: the login URL keeps the location
    it was built from, navigation ends after at most two redirects, and why a deep link is
    nevertheless lost.
  \<^item> \<open>Latest_Request\<close>: the request hook, with the locale \<open>request_lease\<close> for what views rely on.
  \<^item> \<open>Admin_Parts\<close>, \<open>Paged_View\<close>, \<open>Tasks_View\<close>, \<open>Audit_View\<close>: the shared components, the paging
    code both table views have, as the locale \<open>paged_view\<close> over \<open>invariant_system\<close>, and the two
    views that interpret it.  Shown: only the answer to the query on screen is shown, the spinner
    never hangs, paging back and forth is consistent, the server reads the query that is meant.
  \<^item> \<open>Records_Store\<close>, \<open>Records_View\<close>, \<open>Record_Dialogs\<close>: the records module; the locale
    \<open>keyed_store\<close> states that the list is a map under the store's updates.  Shown: what each call
    does to the list, that only permitted and well-formed mutations are sent, one at a time, and that
    each ends with a notification; two races are shown as runs.
  \<^item> \<open>Dialog_Focus\<close>: the records page with its dialogs and the focus (\<open>page_step\<close>).  Shown: an open
    dialog keeps the focus, a closed one gives it back; and that a deletion loses it.
  \<^item> \<open>Toast_Store\<close>: notifications with their timers, refining a specification without timers
    through an interpretation of \<open>simulation\<close>.
  \<^item> \<open>App_Shell\<close>: effects and their clean-ups, the scroll lock, the focus trap.
  \<^item> \<open>Component_Tree\<close>: the tree of providers and components the entry point renders, with the router as
    one of the providers, and what a tree needs from above.  Shown: every hook finds its provider, and
    which element can stand in the router's place.
  \<^item> \<open>Admin_System\<close>: the components put together as they run.  A state has the session's world, the
    location, the notifications, and the module views mounted so far; \<open>show_route\<close> mounts and
    unmounts views as \<open>AdminRoutes\<close> decides, and a view's requests are requests in flight of the
    session's world, so that a 401 of any view ends the session.  The events of a view are those of
    \<open>records_user\<close>, \<open>tasks_user\<close> and \<open>audit_user\<close>, which the step relations of the views also use.
    An event is followed by a render (\<open>admin_event\<close>, \<open>admin_step\<close>).
    \<open>System_Invariant\<close> proves its invariant, the interpretation \<open>ad\<close> of \<open>invariant_system\<close>;
    \<open>System_Properties\<close> derives that the session of the application is one the session store
    reaches, that a view on the screen is one the session may see, that a 401 leads to the login form,
    and that a save outlives its view.  \<open>System_Liveness\<close> shows that a view on the screen never waits
    for something that cannot happen: its timer can fire, or its request can end, and a failure of any
    kind ends the loading.
  \<^item> \<open>Shell_System\<close>: the shell in the running application, mounted and unmounted by the routes.  Shown:
    the page can be scrolled again whenever the overlay or the whole shell goes, an expiry included.
  \<^item> \<open>Strict_Mode\<close>: the double mount of a development build.  Shown: it is harmless for the stores and
    the views, and why it is not for the dialogs.
  \<^item> \<open>Asset_Scripts\<close>: the variant table, the build loop, the directory walk and the comparison, and
    what the build configuration selects.
  \<^item> \<open>Counter_Page\<close>, \<open>Action_Contracts\<close>: the script of the counter example and the declarations
    generated for its clients.
  \<^item> This theory: signing in and signing out, from the form or the button to the screen.

  \<^bold>\<open>Bounds.\<close>  Redirects are followed at most twice, which \<open>navigation_ends\<close> shows to be enough.
  Nothing else is bounded: all other definitions are total functions or relations.  Counters that
  the program keeps in floating-point numbers (identifiers of notifications and of requests) are
  natural numbers, and the numbers of the server (versions of records, attempts of tasks, the order of
  modules) integers; they would have to exceed \<open>2 ^ 53\<close> to differ.  The limit of 200 code units that the
  title field of the record dialog has is the browser's to keep; it is a condition of the event that
  edits the title.

  \<^bold>\<open>Not modelled.\<close>  The Go packages (the server enters through the outcomes of requests); the router,
  React and the build tool themselves; class names, icons, styles and the parts of the markup
  without behaviour; the settings of the test runner and of the linter, which configure other
  programs; built bundles; which of several module routes matches a path (the router's, a parameter
  \<open>match\<close>).  A few definitions stand for the platform and translate no line of the sources:
  \<open>parse_location\<close> splits a path at its question mark and number sign and does not normalise it,
  \<open>press_tab\<close> is what the browser does with an unhandled Tab key, and the links, \<open>transmit\<close> and
  \<open>settle_link\<close> of \<open>Admin_System\<close> connect a view's promise with the request it is waiting for.  What else the sources of the front end hold is imports and declarations of contexts
  and refs.
\<close>

section \<open>Properties that span components\<close>

subsection \<open>Signing in\<close>

text \<open>
  C6.  Signing in leads into the workspace.  Submitting the login form sends the login request; when
  it and the request for the Admin context succeed, the form navigates to the location that the
  \<open>next\<close> parameter of its URL asks for when that is a local one (a single slash first), and to the root
  when there is no such parameter or it is not local, so that a link cannot lead away from the
  application.  From there the routes, rendered for the new session, end after at most two redirects
  at a module view or at the notice that no module is available.  The path of the first module has to
  match a module route.
\<close>

theorem sign_in_reaches_workspace:
  assumes "matcher_ok match" and "auth_reachable w" and "ready w" and "canSubmit (auth w) f"
    and "as_session sv = Some s" and "as_admin_context cv = Some ctx"
    and "first_route_ok match (resolveAdminModules selected (context_modules ctx) (set (context_grants ctx)))"
  shows "\<exists>w1 w2 u loc' screen.
    deliver (next_call w) (Response 200 (Some sv)) (snd (submit_login f w)) = Some (w1, Silent) \<and>
    deliver (Suc (next_call w)) (Response 200 (Some cv)) w1 = Some (w2, LoginResolved) \<and>
    submit_settled loc LoginResolved f = (f, Some u) \<and>
    (case params_get (search_params (loc_search loc)) (lit ''next'') of
       None \<Rightarrow> u = lit ''/''
     | Some requested \<Rightarrow>
         u = (if prefix (lit ''/'') requested \<and> \<not> prefix (lit ''//'') requested then requested else lit ''/'')) \<and>
    follow 2 (render match selected (auth w2)) (parse_location u) = Some (loc', screen) \<and>
    workspace_screen screen"
proof -
  obtain w1 w2 where d: "deliver (next_call w) (Response 200 (Some sv)) (login (username f) (password f) w) = Some (w1, Silent)"
      "deliver (Suc (next_call w)) (Response 200 (Some cv)) w1 = Some (w2, LoginResolved)"
    and a: "auth w2 = (auth w)\<lparr>auth_actor := Some (session_actor s), auth_modules := context_modules ctx,
      auth_grants := set (context_grants ctx), busy := False\<rparr>"
    using login_completes [OF assms(2,5,6)] by blast
  have "initialized (auth w2)" "initializationError (auth w2) = []" "authenticated (auth w2)"
      "first_route_ok match (useAdminModules selected (auth w2))"
    using assms(3,7) by (simp_all add: a ready_def authenticated_def useAdminModules_def)
  then obtain loc' screen where
    "follow 2 (render match selected (auth w2)) (parse_location (next_target (loc_search loc))) = Some (loc', screen)"
    "workspace_screen screen"
    using signed_in_follow [OF assms(1)] by blast
  with d assms(4) show ?thesis
    by (fastforce simp: submit_login_def submit_settled_def next_target_def starts_with_iff_prefix split: option.splits)
qed

lemma records_first_route:
  "first_route_ok exact_matcher (resolveAdminModules selectedAdminModules (context_modules records_context)
     (set (context_grants records_context)))"
proof -
  have p: "pathname (parse_location (lit ''/records'')) = lit ''/records''"
    by (simp add: parse_location_def lit_def)
  show ?thesis
    by (simp add: records_context_def first_route_ok_def selectedAdminModules_def recordsModule_def resolveAdminModules_def
        hasDuplicateIDs_def resolve_one_def available_def permitted_def resolved_def exact_matcher_def p)
qed

lemma next_parameter:
  assumes "well_formed r"
  obtains e where "encodeURIComponent r = Some e"
    "params_get (search_params (loc_search (parse_location (lit ''/login?next='' @ e)))) (lit ''next'') = Some r"
proof -
  obtain e where e: "encodeURIComponent r = Some e"
    using encodeURIComponent_defined [of r] assms by blast
  show thesis
    by (rule that [OF e]) (use encoded_units(3) [OF e] in \<open>simp add: login_url_location [OF e] params_get_def\<close>)
qed

text \<open>At work: after a sign-out, the form at the login URL for \<open>/records\<close> leads there, and the form at
  a URL made to lead to another host leads to the root.\<close>

theorem sign_in_reaches_workspace_witness:
  "\<exists>w w1 w2 good bad loc' screen loc'' screen'. auth_run signed_out_run (initialize world_init) = Some w \<and>
     encodeURIComponent (lit ''/records'') = Some good \<and> encodeURIComponent (lit ''//evil.example'') = Some bad \<and>
     deliver 2 (Response 200 (Some sample_session_json))
       (snd (submit_login \<lparr>username = lit ''u'', password = lit ''p'', form_error = []\<rparr> w)) = Some (w1, Silent) \<and>
     deliver 3 (Response 200 (Some records_context_json)) w1 = Some (w2, LoginResolved) \<and>
     snd (submit_settled (parse_location (lit ''/login?next='' @ good)) LoginResolved
       \<lparr>username = lit ''u'', password = lit ''p'', form_error = []\<rparr>) = Some (lit ''/records'') \<and>
     follow 2 (render exact_matcher selectedAdminModules (auth w2)) (parse_location (lit ''/records'')) = Some (loc', screen) \<and>
     workspace_screen screen \<and>
     snd (submit_settled (parse_location (lit ''/login?next='' @ bad)) LoginResolved
       \<lparr>username = lit ''u'', password = lit ''p'', form_error = []\<rparr>) = Some (lit ''/'') \<and>
     follow 2 (render exact_matcher selectedAdminModules (auth w2)) (parse_location (lit ''/'')) = Some (loc'', screen') \<and>
     workspace_screen screen'"
proof -
  let ?f = "\<lparr>username = lit ''u'', password = lit ''p'', form_error = []\<rparr>"
  obtain w where w: "auth_run signed_out_run (initialize world_init) = Some w" "ready w" "\<not> busy (auth w)"
      "next_call w = 2"
    using signed_out_run_result by blast
  have c: "canSubmit (auth w) ?f"
    using w(3) by (simp add: canSubmit_def js_trim_def is_js_space_def lit_def)
  note ok = sign_in_reaches_workspace [OF exact_matcher_ok mounted_run_reachable [OF w(1)] w(2) c sample_readers(1)
      records_context_read records_first_route]
  have "well_formed (lit ''/records'')" "well_formed (lit ''//evil.example'')"
    by (simp_all add: well_formed_def lit_def is_high_def is_low_def)
  then obtain good bad where e: "encodeURIComponent (lit ''/records'') = Some good"
      "params_get (search_params (loc_search (parse_location (lit ''/login?next='' @ good)))) (lit ''next'') = Some (lit ''/records'')"
      "encodeURIComponent (lit ''//evil.example'') = Some bad"
      "params_get (search_params (loc_search (parse_location (lit ''/login?next='' @ bad)))) (lit ''next'') = Some (lit ''//evil.example'')"
    by (metis next_parameter)
  have p: "prefix (lit ''/'') (lit ''/records'')" "\<not> prefix (lit ''//'') (lit ''/records'')" "prefix (lit ''//'') (lit ''//evil.example'')"
    by (simp_all add: lit_def)
  show ?thesis
    using ok [of "parse_location (lit ''/login?next='' @ good)"] ok [of "parse_location (lit ''/login?next='' @ bad)"] w(1)
    unfolding w(4) eval_nat_numeral by (fastforce simp: e p)
qed

subsection \<open>Signing out\<close>

text \<open>
  C7.  Signing out leads to the login form.  When the sign-out button of the shell is pressed and the
  server confirms, no permission and no token is left, the shell navigates to the login page without
  a notification, and that page shows the login form at once.  When the request fails with anything
  but a 401, the session is as before, the shell stays where it is and adds the error as a notification.
\<close>

theorem sign_out_leads_to_login:
  assumes "matcher_ok match" and "auth_reachable w" and "ready w" and "\<not> busy (auth w)"
  shows "\<exists>w'. (case api_result (lit ''/api/auth/logout'') oc of
      Inr v \<Rightarrow> deliver (next_call w) oc (shell_logout w) = Some (w', LogoutResolved) \<and>
        shell_logout_settled LogoutResolved ts = (ts, Some (lit ''/login'')) \<and>
        (\<forall>permission. \<not> can (auth w') permission) \<and> csrfToken w' = [] \<and>
        follow 0 (render match selected (auth w')) (parse_location (lit ''/login'')) =
          Some (parse_location (lit ''/login''), LoginScreen)
    | Inl c \<Rightarrow> deliver (next_call w) oc (shell_logout w) = Some (w', LogoutRejected c) \<and>
        (\<exists>ts'. shell_logout_settled (LogoutRejected c) ts = (ts', None) \<and>
           map (\<lambda>t. (toast_message t, toast_tone t)) (items ts') =
             map (\<lambda>t. (toast_message t, toast_tone t)) (items ts) @
               [(cause_message logout_failed_text c, ErrorTone)]) \<and>
        ((\<exists>e. c = ApiCause e \<and> err_status e = 401) \<or> auth w' = auth w \<and> csrfToken w' = csrfToken w))"
proof -
  have p: "pathname (parse_location (lit ''/login'')) = lit ''/login''"
    by (simp add: parse_location_def lit_def)
  have "follow 0 (render match selected a) (parse_location (lit ''/login'')) =
      Some (parse_location (lit ''/login''), LoginScreen)"
    if "initialized a" "initializationError a = []" "\<not> authenticated a" for a
    by (simp add: follow_screen render_signed_out [OF that assms(1)] p matcher_okD [OF assms(1)])
  moreover have "map (\<lambda>t. (toast_message t, toast_tone t)) (items (show_toast m (Some ErrorTone) ts)) =
      map (\<lambda>t. (toast_message t, toast_tone t)) (items ts) @ [(m, ErrorTone)]" for m
    by (simp add: show_toast_def setTimeout_def Let_def)
  moreover have "(auth w)\<lparr>busy := False\<rparr> = auth w"
    using assms(4) by simp
  ultimately show ?thesis
    using logout_delivered [of w oc] auth_reachable_inv [OF assms(2)] assms(3,4)
    by (cases "api_result (lit ''/api/auth/logout'') oc")
      (auto simp: shell_logout_def shell_logout_settled_def ready_def authenticated_def can_def)
qed

theorem sign_out_leads_to_login_witness:
  "\<exists>w w'. auth_run sign_in_run (initialize world_init) = Some w \<and> authenticated (auth w) \<and>
     deliver 3 (Response 204 None) (shell_logout w) = Some (w', LogoutResolved) \<and> csrfToken w' = [] \<and>
     follow 0 (render exact_matcher selectedAdminModules (auth w')) (parse_location (lit ''/login'')) =
       Some (parse_location (lit ''/login''), LoginScreen)"
proof -
  obtain w where w: "auth_run sign_in_run (initialize world_init) = Some w" "ready w" "authenticated (auth w)"
      "next_call w = 3" "\<not> busy (auth w)"
    using sign_in_run_result by blast
  show ?thesis
    using sign_out_leads_to_login [OF exact_matcher_ok mounted_run_reachable [OF w(1)] w(2,5),
        of "Response 204 None" toast_init selectedAdminModules] w(1,3,4)
    by (auto simp: api_result_def)
qed

end
